theory Spec2Isabelle
  imports Main "HOL-Library.Word"
begin

unbundle bit_operations_syntax

section \<open>Directory listing (package cmd, posix-list-dir-other)\<close>

subsection \<open>What readDirN sees of the operating system\<close>

text \<open>
  Go's \<open>os.FileMode\<close> is a 32-bit set of flags; the type bits are counted from the top,
  \<open>ModeDir = 1 << 31\<close>, \<open>ModeSymlink = 1 << 27\<close> and so on. \<open>IsDir\<close> tests the
  directory bit, \<open>IsRegular\<close> tests that no type bit is set.
\<close>

type_synonym FileMode = "32 word"

definition ModeDir :: FileMode where
  "ModeDir = push_bit 31 1"

definition ModeSymlink :: FileMode where
  "ModeSymlink = push_bit 27 1"

definition ModeDevice :: FileMode where
  "ModeDevice = push_bit 26 1"

definition ModeNamedPipe :: FileMode where
  "ModeNamedPipe = push_bit 25 1"

definition ModeSocket :: FileMode where
  "ModeSocket = push_bit 24 1"

definition ModeCharDevice :: FileMode where
  "ModeCharDevice = push_bit 21 1"

definition ModeIrregular :: FileMode where
  "ModeIrregular = push_bit 19 1"

definition ModeType :: FileMode where
  "ModeType = ModeDir OR ModeSymlink OR ModeNamedPipe OR ModeSocket OR ModeDevice
     OR ModeCharDevice OR ModeIrregular"

definition IsDir :: "FileMode \<Rightarrow> bool" where
  "IsDir m = (m AND ModeDir \<noteq> 0)"

definition IsRegular :: "FileMode \<Rightarrow> bool" where
  "IsRegular m = (m AND ModeType = 0)"

text \<open>
  An error of \<open>os.Open\<close>, \<open>os.Stat\<close> or \<open>Readdir\<close> is a \<open>*os.PathError\<close>: the
  operation, the path it was applied to and the system's error number. Its text, as
  \<open>err.Error()\<close> gives it, is \<open>Op + " " + Path + ": " + Err.Error()\<close>.
\<close>

datatype Errno = ENOENT | ENOTDIR | EACCES | EMFILE | EIO | ELOOP | ENAMETOOLONG

fun Errno_Error :: "Errno \<Rightarrow> string" where
  "Errno_Error ENOENT = ''no such file or directory''"
| "Errno_Error ENOTDIR = ''not a directory''"
| "Errno_Error EACCES = ''permission denied''"
| "Errno_Error EMFILE = ''too many open files''"
| "Errno_Error EIO = ''input/output error''"
| "Errno_Error ELOOP = ''too many levels of symbolic links''"
| "Errno_Error ENAMETOOLONG = ''file name too long''"

record PathError =
  Op :: string
  Path :: string
  Err :: Errno

definition PathError_Error :: "PathError \<Rightarrow> string" where
  "PathError_Error e = Op e @ '' '' @ Path e @ '': '' @ Errno_Error (Err e)"

definition IsNotExist :: "PathError \<Rightarrow> bool" where
  "IsNotExist e = (Err e = ENOENT)"

text \<open>\<open>strings.HasPrefix\<close>, \<open>strings.HasSuffix\<close> and \<open>strings.Contains\<close> on byte strings.\<close>

definition HasPrefix :: "string \<Rightarrow> string \<Rightarrow> bool" where
  "HasPrefix s pre = (length pre \<le> length s \<and> take (length pre) s = pre)"

definition HasSuffix :: "string \<Rightarrow> string \<Rightarrow> bool" where
  "HasSuffix s suf = (length suf \<le> length s \<and> drop (length s - length suf) s = suf)"

fun Contains :: "string \<Rightarrow> string \<Rightarrow> bool" where
  "Contains [] substr = (substr = [])"
| "Contains (c # cs) substr = (HasPrefix (c # cs) substr \<or> Contains cs substr)"

text \<open>
  The errors readDirN can hand to its caller: the repository's own \<open>errFileNotFound\<close>
  (an error value declared in another file of package \<open>cmd\<close>), \<open>io.EOF\<close> (which
  \<open>Readdir\<close> gives at the end of a directory) and an error of the operating system.
\<close>

datatype error = errFileNotFound | ioEOF | OSError PathError

text \<open>
  A directory entry as \<open>Readdir\<close> reports it (an \<open>lstat\<close>: a symbolic link shows as a
  link), and the argument \<open>path.Join(dirPath, name)\<close> of \<open>os.Stat\<close>, kept symbolic.
\<close>

record FileInfo =
  Name :: string
  Mode :: FileMode

datatype path = Join string string

text \<open>
  An open directory is the list of entries not yet read, in the order the system reports
  them, and the failure (if any) that a read meets once they are used up; with no such
  failure the read past the last entry gives \<open>io.EOF\<close>. \<open>Readdir n\<close> with \<open>n > 0\<close> returns
  at most \<open>n\<close> entries, and an empty batch only with an error; with \<open>n \<le> 0\<close> it returns
  all that is left. A read may come back short of \<open>n\<close> before the end: \<open>atHand\<close> lists,
  for the reads to come, how many entries the system has at hand (at least one is
  returned); once that list is used up every read is served in full.
\<close>

record Dir =
  pending :: "FileInfo list"
  fault :: "PathError option"
  atHand :: "nat list"

definition batchSize :: "int \<Rightarrow> Dir \<Rightarrow> nat" where
  "batchSize n d = (case atHand d of [] \<Rightarrow> nat n | b # bs \<Rightarrow> min (nat n) (max 1 b))"

definition Readdir :: "int \<Rightarrow> Dir \<Rightarrow> (error + FileInfo list) \<times> Dir" where
  "Readdir n d =
     (if n \<le> 0 then (Inr (pending d), d\<lparr>pending := [], atHand := tl (atHand d)\<rparr>)
      else if pending d = [] then
        (Inl (case fault d of None \<Rightarrow> ioEOF | Some e \<Rightarrow> OSError e), d)
      else
        (Inr (take (batchSize n d) (pending d)),
         d\<lparr>pending := drop (batchSize n d) (pending d), atHand := tl (atHand d)\<rparr>))"

text \<open>
  The file system: what \<open>os.Open\<close> gives for a directory path, and what \<open>os.Stat\<close>
  (which follows links) gives for a joined path.
\<close>

record FS =
  Open :: "string \<Rightarrow> PathError + Dir"
  Stat :: "path \<Rightarrow> PathError + FileMode"

text \<open>
  Modelled from the spec: \<open>SlashSeparator\<close> is declared in another file of package
  \<open>cmd\<close>; the specification has it as the single reserved path-separator character.
\<close>

definition SlashSeparator :: string where
  "SlashSeparator = ''/''"

subsection \<open>readDirN\<close>

text \<open>
  \<open>count\<close> and \<open>remaining\<close> are Go \<open>int\<close>s; the only arithmetic on them is
  \<open>remaining--\<close>, so they are modelled as integers (every Go \<open>int\<close> is one). The
  deferred \<open>d.Close()\<close> leaves no trace in what the function returns.

  What a call comes to: the entries with a nil error, an error with nil entries, or a
  run-time panic (the slice expression \<open>fis[:remaining]\<close> with a negative bound).
  The second component of a result is what was handed to \<open>logger.LogIf\<close>, in order: the
  \<open>path\<close> tag and the error.
\<close>

datatype outcome = Returned "string list" | Failed error | Panicked

type_synonym logged = "(path \<times> PathError) list"

text \<open>The inner loop over one batch (lines 60 to 91), on \<open>entries\<close>, \<open>remaining\<close> and the log.\<close>

fun scanEntries ::
  "FS \<Rightarrow> string \<Rightarrow> int \<Rightarrow> FileInfo list \<Rightarrow> string list \<times> int \<times> logged
     \<Rightarrow> string list \<times> int \<times> logged" where
  "scanEntries fs dirPath count [] s = s"
| "scanEntries fs dirPath count (fi # fis) (entries, remaining, lg) =
     (if Mode fi AND ModeSymlink = ModeSymlink then
        (case Stat fs (Join dirPath (Name fi)) of
           Inl err \<Rightarrow>
             scanEntries fs dirPath count fis
               (entries, remaining, lg @ [(Join dirPath (Name fi), err)])
         | Inr st \<Rightarrow>
             scanEntries fs dirPath count fis
               (if IsDir st then entries @ [Name fi @ SlashSeparator]
                else if IsRegular st then entries @ [Name fi]
                else entries,
                if count > 0 then remaining - 1 else remaining,
                lg))
      else
        scanEntries fs dirPath count fis
          (if IsDir (Mode fi) then entries @ [Name fi @ SlashSeparator]
           else if IsRegular (Mode fi) then entries @ [Name fi]
           else entries,
           if count > 0 then remaining - 1 else remaining,
           lg))"

text \<open>
  \<open>maxEntries\<close> is assigned once before the loop (lines 37 to 40) and never changes, so
  the loop reads it as a function of \<open>count\<close>.
\<close>

definition maxEntries :: "int \<Rightarrow> int" where
  "maxEntries count = (if count > 0 \<and> count < 1000 then count else 1000)"

text \<open>
  The outer loop \<open>for !done\<close> (lines 45 to 92). A batch that sets \<open>done\<close> is the last
  one, so that branch returns what the function returns after the loop.
\<close>

function readLoop ::
  "FS \<Rightarrow> string \<Rightarrow> int \<Rightarrow> Dir \<Rightarrow> int \<Rightarrow> string list \<Rightarrow> logged \<Rightarrow> outcome \<times> logged" where
  "readLoop fs dirPath count d remaining entries lg =
     (case Readdir (maxEntries count) d of
        (Inl err, d') \<Rightarrow>
          if err = ioEOF then (Returned entries, lg) else (Failed err, lg)
      | (Inr fis, d') \<Rightarrow>
          if count > 0 \<and> remaining \<le> int (length fis) then
            (if remaining < 0 then (Panicked, lg)
             else
               (case scanEntries fs dirPath count (take (nat remaining) fis)
                       (entries, remaining, lg) of
                  (entries', remaining', lg') \<Rightarrow> (Returned entries', lg')))
          else
            (case scanEntries fs dirPath count fis (entries, remaining, lg) of
               (entries', remaining', lg') \<Rightarrow>
                 readLoop fs dirPath count d' remaining' entries' lg'))"
  by pat_completeness auto
termination
proof (relation "measure (\<lambda>(fs, dirPath, count, d, remaining, entries, lg). length (pending d))")
  show "wf (measure (\<lambda>(fs, dirPath, count, d, remaining, entries, lg). length (pending d)))"
    by simp
next
  fix fs :: FS and dirPath :: string and count :: int and d :: Dir and remaining :: int
    and entries :: "string list" and lg :: logged
    and x :: "error + FileInfo list" and d' :: Dir and fis :: "FileInfo list"
    and y :: "string list \<times> int \<times> logged" and entries' :: "string list"
    and z :: "int \<times> logged" and remaining' :: int and lg' :: logged
  assume rd: "(x, d') = Readdir (maxEntries count) d" and x: "x = Inr fis"
  have pos: "0 < maxEntries count"
    by (simp add: maxEntries_def)
  have sz: "0 < batchSize (maxEntries count) d"
    using pos by (auto simp: batchSize_def max_def split: list.split)
  from rd x pos have "pending d \<noteq> []"
    and "pending d' = drop (batchSize (maxEntries count) d) (pending d)"
    by (auto simp: Readdir_def split: if_splits)
  with sz have "length (pending d') < length (pending d)"
    by simp
  then show "((fs, dirPath, count, d', remaining', entries', lg'),
              (fs, dirPath, count, d, remaining, entries, lg))
             \<in> measure (\<lambda>(fs, dirPath, count, d, remaining, entries, lg). length (pending d))"
    by simp
qed

definition readDirN :: "FS \<Rightarrow> string \<Rightarrow> int \<Rightarrow> outcome \<times> logged" where
  "readDirN fs dirPath count =
     (case Open fs dirPath of
        Inl err \<Rightarrow>
          if IsNotExist err then (Failed errFileNotFound, [])
          else if Contains (PathError_Error err) ''not a directory'' then
            (Failed errFileNotFound, [])
          else (Failed (OSError err), [])
      | Inr d \<Rightarrow> readLoop fs dirPath count d count [] [])"

definition readDir :: "FS \<Rightarrow> string \<Rightarrow> outcome \<times> logged" where
  "readDir fs dirPath = readDirN fs dirPath (- 1)"


section \<open>HTTP statistics (package cmd, http-stats)\<close>

subsection \<open>Integers, maps and references\<close>

text \<open>
  Go's \<open>int\<close> is a 64-bit two's complement integer on the 64-bit targets: \<open>++\<close> and
  \<open>--\<close> wrap around, and comparisons read the sign (\<open>sint\<close>, \<open><s\<close>).

  A Go map is a reference: \<open>Load\<close> returns the table's map itself, and two holders of it
  see each other's updates. So the contents of the maps live in a store, a map value is a
  reference into it (\<open>None\<close> for the nil map), and \<open>make(map[string]int)\<close>, here
  \<open>makeMap\<close>, takes the next unused reference.
\<close>

type_synonym goint = "64 word"

type_synonym apiStats = "string \<rightharpoonup> goint"

type_synonym ref = nat

record store =
  cells :: "ref \<Rightarrow> apiStats"
  free :: ref

definition makeMap :: "store \<Rightarrow> ref \<times> store" where
  "makeMap h = (free h, h\<lparr>cells := (cells h)(free h := Map.empty), free := Suc (free h)\<rparr>)"

definition assign :: "store \<Rightarrow> ref \<Rightarrow> string \<Rightarrow> goint \<Rightarrow> store" where
  "assign h m api v = h\<lparr>cells := (cells h)(m := (cells h m)(api \<mapsto> v))\<rparr>"

subsection \<open>ConnStats\<close>

text \<open>
  The four byte counters are \<open>atomic.Uint64\<close> values: \<open>Add\<close> wraps around at
  \<open>2^64\<close>, and the conversion \<open>uint64(n)\<close> of the \<open>int\<close> argument wraps a negative
  \<open>n\<close>. The functions below are the methods run by one caller at a time; that \<open>Add\<close>
  is atomic when several callers run together is a property of the library, which a
  function from state to state does not express.
\<close>

record ConnStats =
  totalInputBytes :: "64 word"
  totalOutputBytes :: "64 word"
  s3InputBytes :: "64 word"
  s3OutputBytes :: "64 word"

definition incInputBytes :: "ConnStats \<Rightarrow> int \<Rightarrow> ConnStats" where
  "incInputBytes s n = s\<lparr>totalInputBytes := totalInputBytes s + word_of_int n\<rparr>"

definition incOutputBytes :: "ConnStats \<Rightarrow> int \<Rightarrow> ConnStats" where
  "incOutputBytes s n = s\<lparr>totalOutputBytes := totalOutputBytes s + word_of_int n\<rparr>"

definition incS3InputBytes :: "ConnStats \<Rightarrow> int \<Rightarrow> ConnStats" where
  "incS3InputBytes s n = s\<lparr>s3InputBytes := s3InputBytes s + word_of_int n\<rparr>"

definition incS3OutputBytes :: "ConnStats \<Rightarrow> int \<Rightarrow> ConnStats" where
  "incS3OutputBytes s n = s\<lparr>s3OutputBytes := s3OutputBytes s + word_of_int n\<rparr>"

definition newConnStats :: ConnStats where
  "newConnStats = \<lparr>totalInputBytes = 0, totalOutputBytes = 0, s3InputBytes = 0, s3OutputBytes = 0\<rparr>"

record ServerConnStats =
  TotalInputBytes :: "64 word"
  TotalOutputBytes :: "64 word"
  Throughput :: "64 word"
  S3InputBytes :: "64 word"
  S3OutputBytes :: "64 word"

definition toServerConnStats :: "ConnStats \<Rightarrow> ServerConnStats" where
  "toServerConnStats s =
     \<lparr>TotalInputBytes = totalInputBytes s, TotalOutputBytes = totalOutputBytes s,
      Throughput = 0, S3InputBytes = s3InputBytes s, S3OutputBytes = s3OutputBytes s\<rparr>"

subsection \<open>HTTPAPIStats\<close>

text \<open>
  The struct holds the map and an embedded \<open>sync.RWMutex\<close>. In a run of one caller the
  mutex is free at every call and free again after it, so it carries no state here; what
  remains of \<open>stats.Lock()\<close> is that it reaches through the receiver, and faults on a nil
  one. A receiver is a pointer: \<open>None\<close> for nil, \<open>Some s\<close> for a pointer to a struct
  that holds \<open>s\<close>; a method returns what the struct holds afterwards.
\<close>

record HTTPAPIStats =
  APIStats :: "ref option"

datatype panic = NilDereference

definition Lock :: "HTTPAPIStats option \<Rightarrow> panic + unit" where
  "Lock stats = (case stats of None \<Rightarrow> Inl NilDereference | Some s \<Rightarrow> Inr ())"

definition Inc :: "HTTPAPIStats option \<Rightarrow> string \<Rightarrow> store \<Rightarrow> panic + (HTTPAPIStats option \<times> store)" where
  "Inc stats api h =
     (case Lock stats of
        Inl p \<Rightarrow> Inl p
      | Inr u \<Rightarrow>
          (case stats of
             None \<Rightarrow> Inr (None, h)
           | Some s \<Rightarrow>
               (case (case APIStats s of None \<Rightarrow> makeMap h | Some m \<Rightarrow> (m, h)) of
                  (m, h1) \<Rightarrow>
                    (case cells h1 m api of
                       Some v \<Rightarrow> Inr (Some (s\<lparr>APIStats := Some m\<rparr>), assign h1 m api (v + 1))
                     | None \<Rightarrow> Inr (Some (s\<lparr>APIStats := Some m\<rparr>), assign h1 m api 1)))))"

definition Dec :: "HTTPAPIStats option \<Rightarrow> string \<Rightarrow> store \<Rightarrow> panic + (HTTPAPIStats option \<times> store)" where
  "Dec stats api h =
     (case Lock stats of
        Inl p \<Rightarrow> Inl p
      | Inr u \<Rightarrow>
          (case stats of
             None \<Rightarrow> Inr (None, h)
           | Some s \<Rightarrow>
               (case APIStats s of
                  None \<Rightarrow> Inr (Some s, h)
                | Some m \<Rightarrow>
                    (case cells h m api of
                       Some v \<Rightarrow>
                         if 0 <s v then Inr (Some s, assign h m api (v - 1))
                         else Inr (Some s, h)
                     | None \<Rightarrow> Inr (Some s, h)))))"

definition Load :: "HTTPAPIStats option \<Rightarrow> panic + ref option" where
  "Load stats =
     (case Lock stats of
        Inl p \<Rightarrow> Inl p
      | Inr u \<Rightarrow> (case stats of None \<Rightarrow> Inl NilDereference | Some s \<Rightarrow> Inr (APIStats s)))"

subsection \<open>HTTPStats\<close>

record HTTPStats =
  currentS3Requests :: HTTPAPIStats
  totalS3Requests :: HTTPAPIStats
  totalS3Errors :: HTTPAPIStats

definition newHTTPStats :: HTTPStats where
  "newHTTPStats =
     \<lparr>currentS3Requests = \<lparr>APIStats = None\<rparr>,
      totalS3Requests = \<lparr>APIStats = None\<rparr>,
      totalS3Errors = \<lparr>APIStats = None\<rparr>\<rparr>"

text \<open>
  The reporting structures. The field \<open>APIStats\<close> of \<open>ServerHTTPAPIStats\<close> is written
  \<open>APIStatsMap\<close>, the name being taken by the field of \<open>HTTPAPIStats\<close>.
\<close>

record ServerHTTPAPIStats =
  APIStatsMap :: "ref option"

record ServerHTTPStats =
  CurrentS3Requests :: ServerHTTPAPIStats
  TotalS3Requests :: ServerHTTPAPIStats
  TotalS3Errors :: ServerHTTPAPIStats

definition toServerHTTPStats :: "HTTPStats \<Rightarrow> panic + ServerHTTPStats" where
  "toServerHTTPStats st =
     (case Load (Some (currentS3Requests st)) of
        Inl p \<Rightarrow> Inl p
      | Inr currentMap \<Rightarrow>
          (case Load (Some (totalS3Requests st)) of
             Inl p \<Rightarrow> Inl p
           | Inr totalMap \<Rightarrow>
               (case Load (Some (totalS3Errors st)) of
                  Inl p \<Rightarrow> Inl p
                | Inr errorsMap \<Rightarrow>
                    Inr \<lparr>CurrentS3Requests = \<lparr>APIStatsMap = currentMap\<rparr>,
                         TotalS3Requests = \<lparr>APIStatsMap = totalMap\<rparr>,
                         TotalS3Errors = \<lparr>APIStatsMap = errorsMap\<rparr>\<rparr>)))"

text \<open>
  Of the request \<open>updateStats\<close> reads the method and the path; of the response record
  (\<open>recordAPIStats\<close>, a type of another file of the package) it reads the status code and
  the flag. \<open>prometheusMetricsPath\<close> is a constant of another file of the package, so
  it is a parameter here. The third component of the result is what the call hands to
  the histogram \<open>httpRequestsDuration\<close>: the label and the duration, whose type is left
  open. A method called on a field of \<open>st\<close> has a non-nil receiver; \<open>held\<close> writes
  what the receiver holds after the call back into the field.
\<close>

record Request =
  Method :: string
  URL_Path :: string

record recordAPIStats =
  respStatusCode :: int
  isS3Request :: bool

definition held :: "HTTPAPIStats \<Rightarrow> HTTPAPIStats option \<Rightarrow> HTTPAPIStats" where
  "held s after = (case after of None \<Rightarrow> s | Some s' \<Rightarrow> s')"

definition updateStats ::
  "string \<Rightarrow> HTTPStats \<Rightarrow> string \<Rightarrow> Request \<Rightarrow> recordAPIStats \<Rightarrow> 'd \<Rightarrow> store
     \<Rightarrow> panic + (HTTPStats \<times> store \<times> (string \<times> 'd) list)" where
  "updateStats prometheusMetricsPath st api r w durationSecs h =
     (let successReq = (respStatusCode w \<ge> 200 \<and> respStatusCode w < 300);
          observed = (if isS3Request w \<and> Method r = ''GET'' then [(api, durationSecs)] else [])
      in
        if isS3Request w \<and> \<not> HasSuffix (URL_Path r) prometheusMetricsPath then
          (case Inc (Some (totalS3Requests st)) api h of
             Inl p \<Rightarrow> Inl p
           | Inr (requests, h1) \<Rightarrow>
               if \<not> successReq \<and> respStatusCode w \<noteq> 0 then
                 (case Inc (Some (totalS3Errors st)) api h1 of
                    Inl p \<Rightarrow> Inl p
                  | Inr (failures, h2) \<Rightarrow>
                      Inr (st\<lparr>totalS3Requests := held (totalS3Requests st) requests,
                               totalS3Errors := held (totalS3Errors st) failures\<rparr>,
                           h2, observed))
               else Inr (st\<lparr>totalS3Requests := held (totalS3Requests st) requests\<rparr>, h1, observed))
        else Inr (st, h, observed))"

text \<open>A run of calls on one table, stopping at a fault.\<close>

datatype call = IncCall string | DecCall string

fun calls :: "call list \<Rightarrow> HTTPAPIStats option \<times> store \<Rightarrow> panic + (HTTPAPIStats option \<times> store)" where
  "calls [] s = Inr s"
| "calls (IncCall api # cs) (stats, h) =
     (case Inc stats api h of Inl p \<Rightarrow> Inl p | Inr s' \<Rightarrow> calls cs s')"
| "calls (DecCall api # cs) (stats, h) =
     (case Dec stats api h of Inl p \<Rightarrow> Inl p | Inr s' \<Rightarrow> calls cs s')"

section \<open>The specification's vocabulary\<close>

subsection \<open>Directory entries\<close>

text \<open>
  The kind of an entry after its link, if it is one, has been followed once: the mode that
  classifies it is the link target's for a symbolic link (none when the link does not
  resolve) and its own otherwise. A directory is listed as its name and the separator, a
  regular file as its name, anything else not at all. An entry uses one unit of a
  bounded listing's budget unless it is a link that does not resolve.
\<close>

datatype kind = Directory | RegularFile | Skipped

definition effectiveMode :: "FS \<Rightarrow> string \<Rightarrow> FileInfo \<Rightarrow> FileMode option" where
  "effectiveMode fs dirPath fi =
     (if Mode fi AND ModeSymlink = ModeSymlink then
        (case Stat fs (Join dirPath (Name fi)) of Inl err \<Rightarrow> None | Inr st \<Rightarrow> Some st)
      else Some (Mode fi))"

definition kindOf :: "FS \<Rightarrow> string \<Rightarrow> FileInfo \<Rightarrow> kind" where
  "kindOf fs dirPath fi =
     (case effectiveMode fs dirPath fi of
        None \<Rightarrow> Skipped
      | Some m \<Rightarrow> if IsDir m then Directory else if IsRegular m then RegularFile else Skipped)"

definition listedAs :: "FS \<Rightarrow> string \<Rightarrow> FileInfo \<Rightarrow> string list" where
  "listedAs fs dirPath fi =
     (case kindOf fs dirPath fi of
        Directory \<Rightarrow> [Name fi @ SlashSeparator]
      | RegularFile \<Rightarrow> [Name fi]
      | Skipped \<Rightarrow> [])"

definition listedNames :: "FS \<Rightarrow> string \<Rightarrow> FileInfo list \<Rightarrow> string list" where
  "listedNames fs dirPath fis = concat (map (listedAs fs dirPath) fis)"

definition failureOf :: "FS \<Rightarrow> string \<Rightarrow> FileInfo \<Rightarrow> logged" where
  "failureOf fs dirPath fi =
     (if Mode fi AND ModeSymlink = ModeSymlink then
        (case Stat fs (Join dirPath (Name fi)) of
           Inl err \<Rightarrow> [(Join dirPath (Name fi), err)]
         | Inr st \<Rightarrow> [])
      else [])"

definition resolutionFailures :: "FS \<Rightarrow> string \<Rightarrow> FileInfo list \<Rightarrow> logged" where
  "resolutionFailures fs dirPath fis = concat (map (failureOf fs dirPath) fis)"

definition usesBudget :: "FS \<Rightarrow> string \<Rightarrow> FileInfo \<Rightarrow> bool" where
  "usesBudget fs dirPath fi = (effectiveMode fs dirPath fi \<noteq> None)"

definition budgetUsed :: "FS \<Rightarrow> string \<Rightarrow> FileInfo list \<Rightarrow> nat" where
  "budgetUsed fs dirPath fis = length (filter (usesBudget fs dirPath) fis)"

subsection \<open>Counter tables\<close>

text \<open>
  The table a receiver shows in a store (a nil receiver and a nil map show no key), a
  table after one increment and after one decrement of a key, and the largest \<open>int\<close>.
  A table is \<open>nonNegative\<close> when none of its counts reads below zero, and
  \<open>countsWithin b\<close> when they all read from 0 to \<open>b\<close>. A run of calls is
  \<open>withinRange\<close> when it applies no \<open>Inc\<close> to a count that is the largest \<open>int\<close>.
  The statistics are \<open>wellFormed\<close> in a store when the maps of the three tables are
  allocated and distinct, and \<open>seenThrough\<close> is the table that a holder of a reporting
  structure finds in a store.
\<close>

definition countOf :: "HTTPAPIStats option \<Rightarrow> store \<Rightarrow> apiStats" where
  "countOf stats h =
     (case stats of
        None \<Rightarrow> Map.empty
      | Some s \<Rightarrow> (case APIStats s of None \<Rightarrow> Map.empty | Some m \<Rightarrow> cells h m))"

definition incremented :: "apiStats \<Rightarrow> string \<Rightarrow> apiStats" where
  "incremented t api = t(api \<mapsto> (case t api of None \<Rightarrow> 1 | Some v \<Rightarrow> v + 1))"

definition decremented :: "apiStats \<Rightarrow> string \<Rightarrow> apiStats" where
  "decremented t api =
     (case t api of None \<Rightarrow> t | Some v \<Rightarrow> if 0 < sint v then t(api \<mapsto> v - 1) else t)"

definition nonNegative :: "apiStats \<Rightarrow> bool" where
  "nonNegative t = (\<forall>api v. t api = Some v \<longrightarrow> 0 \<le> sint v)"

definition maxInt :: goint where
  "maxInt = 9223372036854775807"

definition countsWithin :: "int \<Rightarrow> apiStats \<Rightarrow> bool" where
  "countsWithin b t = (\<forall>api v. t api = Some v \<longrightarrow> 0 \<le> sint v \<and> sint v \<le> b)"

fun withinRange :: "call list \<Rightarrow> HTTPAPIStats option \<times> store \<Rightarrow> bool" where
  "withinRange [] s = True"
| "withinRange (IncCall api # cs) (stats, h) =
     (countOf stats h api \<noteq> Some maxInt \<and>
      (case Inc stats api h of Inl p \<Rightarrow> True | Inr s' \<Rightarrow> withinRange cs s'))"
| "withinRange (DecCall api # cs) (stats, h) =
     (case Dec stats api h of Inl p \<Rightarrow> True | Inr s' \<Rightarrow> withinRange cs s')"

definition allocated :: "store \<Rightarrow> HTTPAPIStats \<Rightarrow> bool" where
  "allocated h s = (case APIStats s of None \<Rightarrow> True | Some m \<Rightarrow> m < free h)"

definition separate :: "HTTPAPIStats \<Rightarrow> HTTPAPIStats \<Rightarrow> bool" where
  "separate s t = (case APIStats s of None \<Rightarrow> True | Some m \<Rightarrow> APIStats t \<noteq> Some m)"

definition wellFormed :: "HTTPStats \<Rightarrow> store \<Rightarrow> bool" where
  "wellFormed st h =
     (allocated h (currentS3Requests st) \<and> allocated h (totalS3Requests st) \<and>
      allocated h (totalS3Errors st) \<and>
      separate (currentS3Requests st) (totalS3Requests st) \<and>
      separate (currentS3Requests st) (totalS3Errors st) \<and>
      separate (totalS3Requests st) (totalS3Errors st))"

definition seenThrough :: "store \<Rightarrow> ServerHTTPAPIStats \<Rightarrow> apiStats" where
  "seenThrough h t = (case APIStatsMap t of None \<Rightarrow> Map.empty | Some m \<Rightarrow> cells h m)"

subsection \<open>Sample data\<close>

text \<open>
  Entries with the modes of a regular file (0644), a directory (0755), a symbolic link and
  a device, and a file system with three paths that matter: a directory that holds one
  entry of every kind, a directory whose read fails, and a directory that cannot be
  opened for lack of permission and whose name has the words \<open>not a directory\<close>.
\<close>

definition regularNamed :: "string \<Rightarrow> FileInfo" where
  "regularNamed n = \<lparr>Name = n, Mode = 420\<rparr>"

definition directoryNamed :: "string \<Rightarrow> FileInfo" where
  "directoryNamed n = \<lparr>Name = n, Mode = ModeDir OR 493\<rparr>"

definition symlinkNamed :: "string \<Rightarrow> FileInfo" where
  "symlinkNamed n = \<lparr>Name = n, Mode = ModeSymlink OR 511\<rparr>"

definition deviceNamed :: "string \<Rightarrow> FileInfo" where
  "deviceNamed n = \<lparr>Name = n, Mode = ModeDevice OR 432\<rparr>"

definition sampleDir :: Dir where
  "sampleDir =
     \<lparr>pending = [directoryNamed ''bucket'', regularNamed ''a.txt'', symlinkNamed ''to-dir'',
                 symlinkNamed ''to-file'', symlinkNamed ''dangling'', deviceNamed ''null'',
                 regularNamed ''b.txt''],
      fault = None, atHand = []\<rparr>"

definition failingDir :: Dir where
  "failingDir =
     \<lparr>pending = [regularNamed ''x''],
      fault = Some \<lparr>Op = ''readdirent'', Path = ''/failing'', Err = EIO\<rparr>, atHand = []\<rparr>"

definition sampleFS :: FS where
  "sampleFS =
     \<lparr>Open = (\<lambda>p. if p = ''/data'' then Inr sampleDir
                  else if p = ''/failing'' then Inr failingDir
                  else if p = ''/srv/not a directory'' then Inl \<lparr>Op = ''open'', Path = p, Err = EACCES\<rparr>
                  else Inl \<lparr>Op = ''open'', Path = p, Err = ENOENT\<rparr>),
      Stat = (\<lambda>p. case p of Join dirPath n \<Rightarrow>
                  if n = ''to-dir'' then Inr (ModeDir OR 493)
                  else if n = ''to-file'' then Inr 420
                  else Inl \<lparr>Op = ''stat'', Path = dirPath @ ''/'' @ n, Err = ENOENT\<rparr>)\<rparr>"

text \<open>
  Stores and tables for the statistics: the empty store, a table whose one count is the
  largest \<open>int\<close>, and statistics whose total-requests table already has its map. The
  functions \<open>countAfter\<close>, \<open>requestsAfter\<close> and \<open>errorsAfter\<close> read a count off
  the result of a call, as a signed integer, and \<open>storeAfter\<close> gives the store it leaves.
\<close>

definition countAfter :: "panic + (HTTPAPIStats option \<times> store) \<Rightarrow> string \<Rightarrow> int option" where
  "countAfter r api =
     (case r of Inl p \<Rightarrow> None | Inr (stats, h) \<Rightarrow> map_option sint (countOf stats h api))"

definition emptyStore :: store where
  "emptyStore = \<lparr>cells = (\<lambda>m. Map.empty), free = 0\<rparr>"

definition saturatedTable :: HTTPAPIStats where
  "saturatedTable = \<lparr>APIStats = Some 0\<rparr>"

definition saturatedStore :: store where
  "saturatedStore =
     \<lparr>cells = (\<lambda>m. if m = 0 then [''GetObject'' \<mapsto> maxInt] else Map.empty), free = 1\<rparr>"

definition busyStats :: HTTPStats where
  "busyStats =
     \<lparr>currentS3Requests = \<lparr>APIStats = None\<rparr>,
      totalS3Requests = \<lparr>APIStats = Some 0\<rparr>,
      totalS3Errors = \<lparr>APIStats = None\<rparr>\<rparr>"

definition busyStore :: store where
  "busyStore =
     \<lparr>cells = (\<lambda>m. if m = 0 then [''GetObject'' \<mapsto> 1] else Map.empty), free = 1\<rparr>"

definition storeAfter :: "panic + (HTTPAPIStats option \<times> store) \<Rightarrow> store option" where
  "storeAfter r = (case r of Inl p \<Rightarrow> None | Inr (stats, h) \<Rightarrow> Some h)"

definition requestsAfter ::
  "panic + (HTTPStats \<times> store \<times> (string \<times> 'd) list) \<Rightarrow> string \<Rightarrow> int option" where
  "requestsAfter r api =
     (case r of
        Inl p \<Rightarrow> None
      | Inr (st, h, obs) \<Rightarrow> map_option sint (countOf (Some (totalS3Requests st)) h api))"

definition errorsAfter ::
  "panic + (HTTPStats \<times> store \<times> (string \<times> 'd) list) \<Rightarrow> string \<Rightarrow> int option" where
  "errorsAfter r api =
     (case r of
        Inl p \<Rightarrow> None
      | Inr (st, h, obs) \<Rightarrow> map_option sint (countOf (Some (totalS3Errors st)) h api))"

text \<open>
  A directory larger than one batch: a link that does not resolve (or a device) and then
  1001 regular files.
\<close>

definition fileName :: "nat \<Rightarrow> string" where
  "fileName i = replicate (Suc i) CHR ''a''"

definition manyFiles :: "nat \<Rightarrow> nat \<Rightarrow> FileInfo list" where
  "manyFiles i j = map (\<lambda>k. regularNamed (fileName k)) [i..<j]"

definition largeFS :: FS where
  "largeFS =
     \<lparr>Open = (\<lambda>p. if p = ''/large'' then
                    Inr \<lparr>pending = symlinkNamed ''dangling'' # manyFiles 0 1001,
                         fault = None, atHand = []\<rparr>
                  else if p = ''/large-dev'' then
                    Inr \<lparr>pending = deviceNamed ''null'' # manyFiles 0 1001,
                         fault = None, atHand = []\<rparr>
                  else Inl \<lparr>Op = ''open'', Path = p, Err = ENOENT\<rparr>),
      Stat = (\<lambda>p. case p of Join dirPath n \<Rightarrow>
                  Inl \<lparr>Op = ''stat'', Path = dirPath @ ''/'' @ n, Err = ENOENT\<rparr>)\<rparr>"

section \<open>Properties of the directory listing\<close>

subsection \<open>One batch\<close>

text \<open>
  What the inner loop does to its state, in the vocabulary above: it appends the names
  of the batch, takes the units of budget of the batch from \<open>remaining\<close> (when the
  listing is bounded) and appends the resolution failures to the log.
\<close>

lemma maxEntries_pos: "0 < maxEntries count"
  by (simp add: maxEntries_def)

lemma listedNames_simps [simp]:
  "listedNames fs p [] = []"
  "listedNames fs p (fi # fis) = listedAs fs p fi @ listedNames fs p fis"
  "listedNames fs p (xs @ ys) = listedNames fs p xs @ listedNames fs p ys"
  by (simp_all add: listedNames_def)

lemma resolutionFailures_simps [simp]:
  "resolutionFailures fs p [] = []"
  "resolutionFailures fs p (fi # fis) = failureOf fs p fi @ resolutionFailures fs p fis"
  "resolutionFailures fs p (xs @ ys) = resolutionFailures fs p xs @ resolutionFailures fs p ys"
  by (simp_all add: resolutionFailures_def)

lemma budgetUsed_simps [simp]:
  "budgetUsed fs p [] = 0"
  "budgetUsed fs p (fi # fis) = (if usesBudget fs p fi then 1 else 0) + budgetUsed fs p fis"
  "budgetUsed fs p (xs @ ys) = budgetUsed fs p xs + budgetUsed fs p ys"
  by (simp_all add: budgetUsed_def)

lemma scanEntries_eq:
  "scanEntries fs p count fis (es, rem, lg) =
     (es @ listedNames fs p fis,
      (if count > 0 then rem - int (budgetUsed fs p fis) else rem),
      lg @ resolutionFailures fs p fis)"
proof (induction fis arbitrary: es rem lg)
  case Nil
  then show ?case by simp
next
  case (Cons fi fis)
  show ?case
    by (simp add: Cons.IH listedAs_def kindOf_def effectiveMode_def failureOf_def usesBudget_def
        split: sum.split)
qed

lemma length_listedAs: "length (listedAs fs p fi) = (if kindOf fs p fi = Skipped then 0 else 1)"
  by (simp add: listedAs_def split: kind.split)

lemma listed_le_budget: "length (listedNames fs p fis) \<le> budgetUsed fs p fis"
  by (induction fis) (auto simp: length_listedAs kindOf_def usesBudget_def)

lemma budgetUsed_le: "budgetUsed fs p fis \<le> length fis"
  by (simp add: budgetUsed_def)

lemma listedNames_filter:
  "listedNames fs p fis =
     map (\<lambda>fi. if kindOf fs p fi = Directory then Name fi @ SlashSeparator else Name fi)
       (filter (\<lambda>fi. kindOf fs p fi \<noteq> Skipped) fis)"
  by (induction fis) (simp_all add: listedAs_def split: kind.split)

lemma length_listedNames:
  "length (listedNames fs p fis) =
     length (filter (\<lambda>fi. kindOf fs p fi = RegularFile) fis) +
     length (filter (\<lambda>fi. kindOf fs p fi = Directory) fis)"
  by (induction fis) (simp_all add: listedAs_def split: kind.split)

lemma budget_split:
  "budgetUsed fs p fis =
     length (listedNames fs p fis) +
     length (filter (\<lambda>fi. usesBudget fs p fi \<and> kindOf fs p fi = Skipped) fis)"
  by (induction fis) (auto simp: length_listedAs kindOf_def usesBudget_def)

subsection \<open>The loop\<close>

text \<open>
  The unbounded loop lists the whole directory, or fails with the failure of the read
  past the last entry. The bounded loop, entered with a positive \<open>remaining\<close>, lists a
  prefix of the directory in which at most \<open>remaining\<close> units are taken, or fails in the
  same way; it does not reach the slice expression with a negative bound.
\<close>

lemma Readdir_empty:
  "0 < n \<Longrightarrow> pending d = [] \<Longrightarrow>
   Readdir n d = (Inl (case fault d of None \<Rightarrow> ioEOF | Some e \<Rightarrow> OSError e), d)"
  by (simp add: Readdir_def)

lemma Readdir_batch:
  "0 < n \<Longrightarrow> pending d \<noteq> [] \<Longrightarrow>
   Readdir n d =
     (Inr (take (batchSize n d) (pending d)),
      d\<lparr>pending := drop (batchSize n d) (pending d), atHand := tl (atHand d)\<rparr>)"
  by (simp add: Readdir_def)

lemma batchSize_pos: "0 < n \<Longrightarrow> 0 < batchSize n d"
  by (auto simp: batchSize_def max_def split: list.split)

lemma readLoop_unbounded:
  assumes "count \<le> 0"
  shows "readLoop fs p count d rem es lg =
           ((case fault d of
               None \<Rightarrow> Returned (es @ listedNames fs p (pending d))
             | Some e \<Rightarrow> Failed (OSError e)),
            lg @ resolutionFailures fs p (pending d))"
proof (induction "length (pending d)" arbitrary: d rem es lg rule: less_induct)
  case less
  show ?case
  proof (cases "pending d = []")
    case True
    then show ?thesis
      by (subst readLoop.simps) (simp add: Readdir_empty maxEntries_pos split: option.split)
  next
    case False
    define b where "b = batchSize (maxEntries count) d"
    define d' where "d' = d\<lparr>pending := drop b (pending d), atHand := tl (atHand d)\<rparr>"
    have b: "0 < b"
      unfolding b_def by (rule batchSize_pos) (rule maxEntries_pos)
    have rd: "Readdir (maxEntries count) d = (Inr (take b (pending d)), d')"
      unfolding b_def d'_def using False by (simp add: Readdir_batch maxEntries_pos)
    have shorter: "length (pending d') < length (pending d)"
      using b False by (simp add: d'_def)
    have split: "listedNames fs p (take b (pending d)) @ listedNames fs p (drop b (pending d))
                   = listedNames fs p (pending d)"
      "resolutionFailures fs p (take b (pending d)) @ resolutionFailures fs p (drop b (pending d))
                   = resolutionFailures fs p (pending d)"
      by (simp_all flip: listedNames_simps(3) resolutionFailures_simps(3))
    have "readLoop fs p count d rem es lg =
            readLoop fs p count d' rem (es @ listedNames fs p (take b (pending d)))
              (lg @ resolutionFailures fs p (take b (pending d)))"
      using assms by (subst readLoop.simps) (simp add: rd scanEntries_eq)
    also have "\<dots> = ((case fault d' of
               None \<Rightarrow> Returned ((es @ listedNames fs p (take b (pending d))) @ listedNames fs p (pending d'))
             | Some e \<Rightarrow> Failed (OSError e)),
            (lg @ resolutionFailures fs p (take b (pending d))) @ resolutionFailures fs p (pending d'))"
      by (rule less) (rule shorter)
    also have "\<dots> = ((case fault d of
               None \<Rightarrow> Returned (es @ listedNames fs p (pending d))
             | Some e \<Rightarrow> Failed (OSError e)),
            lg @ resolutionFailures fs p (pending d))"
      by (simp add: d'_def split split: option.split)
    finally show ?thesis .
  qed
qed

lemma readLoop_bounded:
  assumes "0 < count"
  shows "0 < rem \<Longrightarrow>
         \<exists>n. int (budgetUsed fs p (take n (pending d))) \<le> rem \<and>
           (readLoop fs p count d rem es lg =
              (Returned (es @ listedNames fs p (take n (pending d))),
               lg @ resolutionFailures fs p (take n (pending d)))
            \<or> (\<exists>e. fault d = Some e \<and>
                 readLoop fs p count d rem es lg =
                   (Failed (OSError e), lg @ resolutionFailures fs p (pending d))))"
proof (induction "length (pending d)" arbitrary: d rem es lg rule: less_induct)
  case less
  show ?case
  proof (cases "pending d = []")
    case True
    then have "readLoop fs p count d rem es lg =
        ((case fault d of None \<Rightarrow> Returned es | Some e \<Rightarrow> Failed (OSError e)), lg)"
      by (subst readLoop.simps) (simp add: Readdir_empty maxEntries_pos split: option.split)
    with True less.prems show ?thesis
      by (intro exI [of _ 0]) (auto split: option.splits)
  next
    case False
    define b where "b = batchSize (maxEntries count) d"
    define d' where "d' = d\<lparr>pending := drop b (pending d), atHand := tl (atHand d)\<rparr>"
    define fis where "fis = take b (pending d)"
    have b: "0 < b"
      unfolding b_def by (rule batchSize_pos) (rule maxEntries_pos)
    have rd: "Readdir (maxEntries count) d = (Inr fis, d')"
      unfolding b_def d'_def fis_def using False by (simp add: Readdir_batch maxEntries_pos)
    have shorter: "length (pending d') < length (pending d)"
      using b False by (simp add: d'_def)
    show ?thesis
    proof (cases "rem \<le> int (length fis)")
      case True
      define n where "n = min (nat rem) b"
      have tk: "take (nat rem) fis = take n (pending d)"
        by (simp add: fis_def n_def)
      have run: "readLoop fs p count d rem es lg =
              (Returned (es @ listedNames fs p (take n (pending d))),
               lg @ resolutionFailures fs p (take n (pending d)))"
        using assms True less.prems
        by (subst readLoop.simps) (simp add: rd scanEntries_eq tk)
      have "budgetUsed fs p (take n (pending d)) \<le> length (take n (pending d))"
        by (rule budgetUsed_le)
      also have "\<dots> \<le> nat rem"
        by (simp add: n_def)
      finally have "int (budgetUsed fs p (take n (pending d))) \<le> rem"
        using less.prems by linarith
      with run show ?thesis by blast
    next
      case False
      define rem' where "rem' = rem - int (budgetUsed fs p fis)"
      have "budgetUsed fs p fis \<le> length fis"
        by (rule budgetUsed_le)
      with False have rem': "0 < rem'"
        by (simp add: rem'_def)
      have run: "readLoop fs p count d rem es lg =
            readLoop fs p count d' rem' (es @ listedNames fs p fis)
              (lg @ resolutionFailures fs p fis)"
        using assms False by (subst readLoop.simps) (simp add: rd scanEntries_eq rem'_def)
      from less.hyps [OF shorter rem', of "es @ listedNames fs p fis" "lg @ resolutionFailures fs p fis"]
      obtain n' where n': "int (budgetUsed fs p (take n' (pending d'))) \<le> rem'"
        and alt: "readLoop fs p count d' rem' (es @ listedNames fs p fis) (lg @ resolutionFailures fs p fis) =
              (Returned ((es @ listedNames fs p fis) @ listedNames fs p (take n' (pending d'))),
               (lg @ resolutionFailures fs p fis) @ resolutionFailures fs p (take n' (pending d')))
            \<or> (\<exists>e. fault d' = Some e \<and>
                 readLoop fs p count d' rem' (es @ listedNames fs p fis) (lg @ resolutionFailures fs p fis) =
                   (Failed (OSError e), (lg @ resolutionFailures fs p fis) @ resolutionFailures fs p (pending d')))"
        by blast
      have tk: "take (b + n') (pending d) = fis @ take n' (pending d')"
        by (simp add: fis_def d'_def take_add)
      have whole: "fis @ pending d' = pending d"
        by (simp add: fis_def d'_def)
      have bud: "int (budgetUsed fs p (take (b + n') (pending d))) \<le> rem"
        using n' by (simp add: tk rem'_def)
      from alt show ?thesis
      proof
        assume "readLoop fs p count d' rem' (es @ listedNames fs p fis) (lg @ resolutionFailures fs p fis) =
              (Returned ((es @ listedNames fs p fis) @ listedNames fs p (take n' (pending d'))),
               (lg @ resolutionFailures fs p fis) @ resolutionFailures fs p (take n' (pending d')))"
        with run have "readLoop fs p count d rem es lg =
              (Returned (es @ listedNames fs p (take (b + n') (pending d))),
               lg @ resolutionFailures fs p (take (b + n') (pending d)))"
          by (simp add: tk)
        with bud show ?thesis by blast
      next
        assume "\<exists>e. fault d' = Some e \<and>
                 readLoop fs p count d' rem' (es @ listedNames fs p fis) (lg @ resolutionFailures fs p fis) =
                   (Failed (OSError e), (lg @ resolutionFailures fs p fis) @ resolutionFailures fs p (pending d'))"
        then obtain e where e: "fault d' = Some e"
          and r: "readLoop fs p count d' rem' (es @ listedNames fs p fis) (lg @ resolutionFailures fs p fis) =
                   (Failed (OSError e), (lg @ resolutionFailures fs p fis) @ resolutionFailures fs p (pending d'))"
          by blast
        have "resolutionFailures fs p fis @ resolutionFailures fs p (pending d') = resolutionFailures fs p (pending d)"
          by (simp flip: resolutionFailures_simps(3) add: whole)
        with run r have "readLoop fs p count d rem es lg =
                   (Failed (OSError e), lg @ resolutionFailures fs p (pending d))"
          by simp
        moreover from e have "fault d = Some e"
          by (simp add: d'_def)
        ultimately show ?thesis using bud by blast
      qed
    qed
  qed
qed

lemma readDirN_unbounded:
  "Open fs p = Inr d \<Longrightarrow> count \<le> 0 \<Longrightarrow>
   readDirN fs p count =
     ((case fault d of
         None \<Rightarrow> Returned (listedNames fs p (pending d))
       | Some e \<Rightarrow> Failed (OSError e)),
      resolutionFailures fs p (pending d))"
  by (simp add: readDirN_def readLoop_unbounded del: readLoop.simps split: option.split)

lemma readDirN_bounded:
  "Open fs p = Inr d \<Longrightarrow> 0 < count \<Longrightarrow>
   \<exists>n. int (budgetUsed fs p (take n (pending d))) \<le> count \<and>
     (readDirN fs p count =
        (Returned (listedNames fs p (take n (pending d))),
         resolutionFailures fs p (take n (pending d)))
      \<or> (\<exists>e. fault d = Some e \<and>
           readDirN fs p count = (Failed (OSError e), resolutionFailures fs p (pending d))))"
  using readLoop_bounded [of count count fs p d "[]" "[]"]
  by (simp add: readDirN_def del: readLoop.simps)

subsection \<open>Errors of the open\<close>

text \<open>
  \<open>Contains\<close> is the substring test. An error of the open is translated when it is a
  not-exist error or its text has the words \<open>not a directory\<close>; the text of the error
  for a component that is not a directory has them, and so has the text of any error on
  a path that has them.
\<close>

lemma readDirN_open_failure:
  "Open fs p = Inl e \<Longrightarrow>
   readDirN fs p count =
     (if IsNotExist e \<or> Contains (PathError_Error e) ''not a directory''
      then (Failed errFileNotFound, []) else (Failed (OSError e), []))"
  by (simp add: readDirN_def)

lemma HasPrefix_append: "HasPrefix (ys @ zs) ys"
  by (simp add: HasPrefix_def)

lemma Contains_HasPrefix: "HasPrefix s t \<Longrightarrow> Contains s t"
  by (cases s) (simp_all add: HasPrefix_def)

lemma Contains_append: "Contains (xs @ ys @ zs) ys"
  by (induction xs) (simp_all add: Contains_HasPrefix HasPrefix_append)

lemma Contains_iff: "Contains s t \<longleftrightarrow> (\<exists>a b. s = a @ t @ b)"
proof (induction s)
  case Nil
  then show ?case by auto
next
  case (Cons c cs)
  have pre: "HasPrefix (c # cs) t \<longleftrightarrow> (\<exists>b. c # cs = t @ b)"
  proof
    assume "HasPrefix (c # cs) t"
    then have "c # cs = t @ drop (length t) (c # cs)"
      by (metis HasPrefix_def append_take_drop_id)
    then show "\<exists>b. c # cs = t @ b" ..
  next
    assume "\<exists>b. c # cs = t @ b"
    then obtain b where b: "c # cs = t @ b" ..
    then have "length (c # cs) = length t + length b"
      by (metis length_append)
    with b show "HasPrefix (c # cs) t"
      by (simp add: HasPrefix_def)
  qed
  show ?case
  proof
    assume "Contains (c # cs) t"
    then consider "HasPrefix (c # cs) t" | "Contains cs t"
      by auto
    then show "\<exists>a b. c # cs = a @ t @ b"
    proof cases
      case 1
      with pre obtain b where "c # cs = t @ b" by blast
      then have "c # cs = [] @ t @ b" by simp
      then show ?thesis by blast
    next
      case 2
      with Cons.IH obtain a b where "cs = a @ t @ b" by blast
      then have "c # cs = (c # a) @ t @ b" by simp
      then show ?thesis by blast
    qed
  next
    assume "\<exists>a b. c # cs = a @ t @ b"
    then obtain a b where ab: "c # cs = a @ t @ b" by blast
    show "Contains (c # cs) t"
    proof (cases a)
      case Nil
      with ab have "\<exists>b. c # cs = t @ b" by auto
      with pre have "HasPrefix (c # cs) t" by blast
      then show ?thesis by simp
    next
      case (Cons x xs)
      with ab have "cs = xs @ t @ b" by simp
      with Cons.IH show ?thesis by auto
    qed
  qed
qed

lemma ENOTDIR_is_not_found:
  "Open fs p = Inl e \<Longrightarrow> Err e = ENOTDIR \<Longrightarrow> readDirN fs p count = (Failed errFileNotFound, [])"
  using Contains_append [of "Op e @ '' '' @ Path e @ '': ''" "''not a directory''" "[]"]
  by (simp add: readDirN_open_failure PathError_Error_def)

lemma path_with_the_words_is_not_found:
  assumes "Open fs p = Inl e" and "Contains (Path e) ''not a directory''"
  shows "readDirN fs p count = (Failed errFileNotFound, [])"
proof -
  from assms(2) obtain a b where "Path e = a @ ''not a directory'' @ b"
    unfolding Contains_iff by blast
  then have "PathError_Error e =
      (Op e @ '' '' @ a) @ ''not a directory'' @ (b @ '': '' @ Errno_Error (Err e))"
    by (simp add: PathError_Error_def)
  then have "Contains (PathError_Error e) ''not a directory''"
    unfolding Contains_iff by blast
  with assms(1) show ?thesis
    by (simp add: readDirN_open_failure)
qed

subsection \<open>A directory larger than one batch\<close>

text \<open>
  Two batches by hand: with \<open>count = 1001\<close> the first batch has 1000 entries and is not
  the last. After a link that does not resolve and 999 files \<open>remaining\<close> is 2, after a
  device and 999 files it is 1.
\<close>

lemma regularNamed_fields: "Name (regularNamed n) = n" "Mode (regularNamed n) = 420"
  by (simp_all add: regularNamed_def)

lemma effectiveMode_regularNamed: "effectiveMode fs p (regularNamed n) = Some 420"
  by (simp add: effectiveMode_def regularNamed_fields ModeSymlink_def)

lemma kindOf_regularNamed: "kindOf fs p (regularNamed n) = RegularFile"
  by (simp add: kindOf_def effectiveMode_regularNamed IsDir_def IsRegular_def ModeDir_def
      ModeType_def ModeSymlink_def ModeNamedPipe_def ModeSocket_def ModeDevice_def
      ModeCharDevice_def ModeIrregular_def)

lemma regularNamed_listed:
  "listedAs fs p (regularNamed n) = [n]"
  "usesBudget fs p (regularNamed n)"
  "failureOf fs p (regularNamed n) = []"
  by (simp_all add: listedAs_def kindOf_regularNamed usesBudget_def effectiveMode_regularNamed
      failureOf_def regularNamed_fields ModeSymlink_def)

lemma regular_files_listed:
  "listedNames fs p (map (\<lambda>k. regularNamed (f k)) ks) = map f ks"
  "budgetUsed fs p (map (\<lambda>k. regularNamed (f k)) ks) = length ks"
  "resolutionFailures fs p (map (\<lambda>k. regularNamed (f k)) ks) = []"
  by (induction ks) (simp_all add: regularNamed_listed)

lemma manyFiles_listed:
  "listedNames fs p (manyFiles i j) = map fileName [i..<j]"
  "budgetUsed fs p (manyFiles i j) = j - i"
  "resolutionFailures fs p (manyFiles i j) = []"
  by (simp_all add: manyFiles_def regular_files_listed)

lemma manyFiles_take: "i + n \<le> j \<Longrightarrow> take n (manyFiles i j) = manyFiles i (i + n)"
  by (simp add: manyFiles_def take_map)

lemma manyFiles_drop: "drop n (manyFiles i j) = manyFiles (i + n) j"
  by (simp add: manyFiles_def drop_map)

lemma manyFiles_length: "length (manyFiles i j) = j - i"
  by (simp add: manyFiles_def)

lemma manyFiles_empty: "(manyFiles i j = []) = (j \<le> i)"
  by (auto simp: manyFiles_def)

lemma dangling_listed:
  "listedAs largeFS p (symlinkNamed ''dangling'') = []"
  "\<not> usesBudget largeFS p (symlinkNamed ''dangling'')"
  "failureOf largeFS p (symlinkNamed ''dangling'') =
     [(Join p ''dangling'', \<lparr>Op = ''stat'', Path = p @ ''/dangling'', Err = ENOENT\<rparr>)]"
  by (simp_all add: listedAs_def kindOf_def effectiveMode_def usesBudget_def failureOf_def
      symlinkNamed_def largeFS_def ModeSymlink_def)

lemma device_listed:
  "listedAs fs p (deviceNamed n) = []"
  "usesBudget fs p (deviceNamed n)"
  "failureOf fs p (deviceNamed n) = []"
  by (simp_all add: listedAs_def kindOf_def effectiveMode_def usesBudget_def failureOf_def
      deviceNamed_def IsDir_def IsRegular_def ModeDir_def
      ModeType_def ModeSymlink_def ModeNamedPipe_def ModeSocket_def ModeDevice_def
      ModeCharDevice_def ModeIrregular_def)

lemma fileNames_join: "i \<le> j \<Longrightarrow> j \<le> k \<Longrightarrow> map fileName [i..<j] @ map fileName [j..<k] = map fileName [i..<k]"
  by (metis le_add_diff_inverse map_append upt_add_eq_append)

lemma link_is_backfilled:
  "readDirN largeFS ''/large'' 1001 =
     (Returned (map fileName [0..<1001]),
      [(Join ''/large'' ''dangling'', \<lparr>Op = ''stat'', Path = ''/large/dangling'', Err = ENOENT\<rparr>)])"
proof -
  let ?d = "\<lparr>pending = symlinkNamed ''dangling'' # manyFiles 0 1001, fault = None, atHand = []\<rparr>"
  let ?d' = "\<lparr>pending = manyFiles 999 1001, fault = None, atHand = []\<rparr>"
  let ?lg = "[(Join ''/large'' ''dangling'', \<lparr>Op = ''stat'', Path = ''/large/dangling'', Err = ENOENT\<rparr>)]"
  have r1: "Readdir (maxEntries 1001) ?d = (Inr ([symlinkNamed ''dangling''] @ manyFiles 0 999), ?d')"
    by (simp add: Readdir_def maxEntries_def batchSize_def take_Cons' drop_Cons' manyFiles_take
        manyFiles_drop)
  have r2: "Readdir (maxEntries 1001) ?d' =
      (Inr (manyFiles 999 1001), \<lparr>pending = [], fault = None, atHand = []\<rparr>)"
    by (simp add: Readdir_def maxEntries_def batchSize_def manyFiles_length manyFiles_empty)
  have "Open largeFS ''/large'' = Inr ?d"
    by (simp add: largeFS_def)
  then have "readDirN largeFS ''/large'' 1001 = readLoop largeFS ''/large'' 1001 ?d 1001 [] []"
    by (simp add: readDirN_def del: readLoop.simps)
  also have "\<dots> = readLoop largeFS ''/large'' 1001 ?d' 2 (map fileName [0..<999]) ?lg"
    by (subst readLoop.simps)
      (simp add: r1 scanEntries_eq manyFiles_listed dangling_listed manyFiles_length
        del: readLoop.simps)
  also have "\<dots> = (Returned (map fileName [0..<999] @ map fileName [999..<1001]), ?lg)"
    by (subst readLoop.simps)
      (simp add: r2 scanEntries_eq manyFiles_listed manyFiles_length del: readLoop.simps)
  also have "map fileName [0..<999] @ map fileName [999..<1001] = map fileName [0..<1001]"
    by (rule fileNames_join) simp_all
  finally show ?thesis .
qed

lemma device_not_backfilled:
  "readDirN largeFS ''/large-dev'' 1001 = (Returned (map fileName [0..<1000]), [])"
proof -
  let ?d = "\<lparr>pending = deviceNamed ''null'' # manyFiles 0 1001, fault = None, atHand = []\<rparr>"
  let ?d' = "\<lparr>pending = manyFiles 999 1001, fault = None, atHand = []\<rparr>"
  have r1: "Readdir (maxEntries 1001) ?d = (Inr ([deviceNamed ''null''] @ manyFiles 0 999), ?d')"
    by (simp add: Readdir_def maxEntries_def batchSize_def take_Cons' drop_Cons' manyFiles_take
        manyFiles_drop)
  have r2: "Readdir (maxEntries 1001) ?d' =
      (Inr (manyFiles 999 1001), \<lparr>pending = [], fault = None, atHand = []\<rparr>)"
    by (simp add: Readdir_def maxEntries_def batchSize_def manyFiles_length manyFiles_empty)
  have "Open largeFS ''/large-dev'' = Inr ?d"
    by (simp add: largeFS_def)
  then have "readDirN largeFS ''/large-dev'' 1001 = readLoop largeFS ''/large-dev'' 1001 ?d 1001 [] []"
    by (simp add: readDirN_def del: readLoop.simps)
  also have "\<dots> = readLoop largeFS ''/large-dev'' 1001 ?d' 1 (map fileName [0..<999]) []"
    by (subst readLoop.simps)
      (simp add: r1 scanEntries_eq manyFiles_listed device_listed manyFiles_length
        del: readLoop.simps)
  also have "\<dots> = (Returned (map fileName [0..<999] @ map fileName [999..<1000]), [])"
    by (subst readLoop.simps)
      (simp add: r2 scanEntries_eq manyFiles_listed manyFiles_length manyFiles_take
        del: readLoop.simps)
  also have "map fileName [0..<999] @ map fileName [999..<1000] = map fileName [0..<1000]"
    by (rule fileNames_join) simp_all
  finally show ?thesis .
qed

subsection \<open>The claims about readDirN\<close>

text \<open>
  Claim C1, as the code has it. A positive \<open>count\<close> bounds the listing: a call that
  returns entries returns at most \<open>count\<close> of them. Zero is not a bound: the three tests
  of the function are \<open>count > 0\<close>, so \<open>readDirN dirPath 0\<close> does what the unbounded
  \<open>readDirN dirPath (-1)\<close> does and lists the whole directory.
\<close>

theorem readDirN_at_most_count:
  "(0 < count \<longrightarrow>
      (\<forall>es lg. readDirN fs dirPath count = (Returned es, lg) \<longrightarrow> int (length es) \<le> count)) \<and>
   readDirN fs dirPath 0 = readDirN fs dirPath (- 1)"
proof (cases "Open fs dirPath")
  case (Inl e)
  then show ?thesis
    by (simp add: readDirN_open_failure)
next
  case (Inr d)
  have zero: "readDirN fs dirPath 0 = readDirN fs dirPath (- 1)"
    using Inr by (simp add: readDirN_unbounded)
  have "int (length es) \<le> count" if "0 < count" and "readDirN fs dirPath count = (Returned es, lg)"
    for es lg
  proof -
    from readDirN_bounded [OF Inr that(1)] that(2)
    obtain n where n: "int (budgetUsed fs dirPath (take n (pending d))) \<le> count"
      and es: "es = listedNames fs dirPath (take n (pending d))"
      by auto
    have "length es \<le> budgetUsed fs dirPath (take n (pending d))"
      unfolding es by (rule listed_le_budget)
    with n show ?thesis by linarith
  qed
  with zero show ?thesis by blast
qed

text \<open>The bound at work on the sample directory, with \<open>count = 3\<close>.\<close>

theorem readDirN_at_most_count_witness:
  "0 < (3::int) \<and>
   readDirN sampleFS ''/data'' 3 = (Returned [''bucket/'', ''a.txt'', ''to-dir/''], []) \<and>
   int (length [''bucket/'', ''a.txt'', ''to-dir/'']) \<le> 3 \<and>
   readDirN sampleFS ''/data'' 0 = readDirN sampleFS ''/data'' (- 1)"
proof -
  have run: "readDirN sampleFS ''/data'' 3 = (Returned [''bucket/'', ''a.txt'', ''to-dir/''], [])"
    by code_simp
  from readDirN_at_most_count [of 3 sampleFS "''/data''"] run
  have "int (length [''bucket/'', ''a.txt'', ''to-dir/'']) \<le> 3"
    and "readDirN sampleFS ''/data'' 0 = readDirN sampleFS ''/data'' (- 1)"
    by simp_all
  with run show ?thesis by simp
qed

text \<open>
  Against C1 as stated (\<open>k = 0\<close> yields an empty result): on the sample directory a
  count of zero returns all five listable names.
\<close>

theorem readDirN_zero_lists_everything:
  "readDirN sampleFS ''/data'' 0 =
     (Returned [''bucket/'', ''a.txt'', ''to-dir/'', ''to-file'', ''b.txt''],
      [(Join ''/data'' ''dangling'', \<lparr>Op = ''stat'', Path = ''/data/dangling'', Err = ENOENT\<rparr>)]) \<and>
   \<not> int (length [''bucket/'', ''a.txt'', ''to-dir/'', ''to-file'', ''b.txt'']) \<le> 0"
  by code_simp

text \<open>
  Claim C2, as the code has it. Once the directory is open, whatever \<open>os.Stat\<close> answers
  for the links, the call never panics, and it fails only when a batch read fails with an
  error other than \<open>io.EOF\<close>; that error is returned as it is (line 52). With reads
  that do not fail the call returns entries and a nil error. What is logged is the
  resolution failures of the entries examined, a prefix of the directory.
\<close>

theorem readDirN_hard_errors:
  "Open fs dirPath = Inr d \<Longrightarrow>
   (fault d = None \<longrightarrow> (\<exists>es lg. readDirN fs dirPath count = (Returned es, lg))) \<and>
   (\<forall>err lg. readDirN fs dirPath count = (Failed err, lg) \<longrightarrow>
      (\<exists>e. fault d = Some e \<and> err = OSError e)) \<and>
   fst (readDirN fs dirPath count) \<noteq> Panicked \<and>
   (\<exists>n. snd (readDirN fs dirPath count) = resolutionFailures fs dirPath (take n (pending d)))"
proof (cases "count \<le> 0")
  case True
  assume "Open fs dirPath = Inr d"
  from readDirN_unbounded [OF this True] show ?thesis
    by (auto split: option.splits intro: exI [of _ "length (pending d)"])
next
  case False
  assume "Open fs dirPath = Inr d"
  from readDirN_bounded [OF this, of count] False
  obtain n where
    "readDirN fs dirPath count =
        (Returned (listedNames fs dirPath (take n (pending d))),
         resolutionFailures fs dirPath (take n (pending d)))
      \<or> (\<exists>e. fault d = Some e \<and>
           readDirN fs dirPath count = (Failed (OSError e), resolutionFailures fs dirPath (pending d)))"
    by auto
  then show ?thesis
  proof
    assume "readDirN fs dirPath count =
        (Returned (listedNames fs dirPath (take n (pending d))),
         resolutionFailures fs dirPath (take n (pending d)))"
    then show ?thesis by auto
  next
    assume "\<exists>e. fault d = Some e \<and>
           readDirN fs dirPath count = (Failed (OSError e), resolutionFailures fs dirPath (pending d))"
    then show ?thesis
      by (auto intro: exI [of _ "length (pending d)"])
  qed
qed

text \<open>
  The sample directory, where one link does not resolve, listed with \<open>count = 5\<close>, and
  the directory whose read fails, listed with \<open>count = 7\<close>.
\<close>

theorem readDirN_hard_errors_witness:
  "Open sampleFS ''/data'' = Inr sampleDir \<and> fault sampleDir = None \<and>
   readDirN sampleFS ''/data'' 5 =
     (Returned [''bucket/'', ''a.txt'', ''to-dir/'', ''to-file''],
      [(Join ''/data'' ''dangling'', \<lparr>Op = ''stat'', Path = ''/data/dangling'', Err = ENOENT\<rparr>)]) \<and>
   (\<exists>es lg. readDirN sampleFS ''/data'' 5 = (Returned es, lg)) \<and>
   Open sampleFS ''/failing'' = Inr failingDir \<and>
   readDirN sampleFS ''/failing'' 7 =
     (Failed (OSError \<lparr>Op = ''readdirent'', Path = ''/failing'', Err = EIO\<rparr>), []) \<and>
   (\<exists>e. fault failingDir = Some e \<and>
        OSError \<lparr>Op = ''readdirent'', Path = ''/failing'', Err = EIO\<rparr> = OSError e)"
proof -
  have o: "Open sampleFS ''/data'' = Inr sampleDir"
    by (simp add: sampleFS_def)
  have f: "fault sampleDir = None"
    by (simp add: sampleDir_def)
  have run: "readDirN sampleFS ''/data'' 5 =
     (Returned [''bucket/'', ''a.txt'', ''to-dir/'', ''to-file''],
      [(Join ''/data'' ''dangling'', \<lparr>Op = ''stat'', Path = ''/data/dangling'', Err = ENOENT\<rparr>)])"
    by code_simp
  from readDirN_hard_errors [OF o, of 5] f
  have 1: "\<exists>es lg. readDirN sampleFS ''/data'' 5 = (Returned es, lg)"
    by blast
  have o': "Open sampleFS ''/failing'' = Inr failingDir"
    by (simp add: sampleFS_def)
  have run': "readDirN sampleFS ''/failing'' 7 =
     (Failed (OSError \<lparr>Op = ''readdirent'', Path = ''/failing'', Err = EIO\<rparr>), [])"
    by code_simp
  from readDirN_hard_errors [OF o', of 7] run'
  have 2: "\<exists>e. fault failingDir = Some e \<and>
        OSError \<lparr>Op = ''readdirent'', Path = ''/failing'', Err = EIO\<rparr> = OSError e"
    by blast
  from o f run 1 o' run' 2 show ?thesis by blast
qed

text \<open>
  Against C2 as stated (once the open succeeds the error is nil): a directory that opens
  and whose read fails with an input/output error.
\<close>

theorem readDirN_read_failure_is_returned:
  "Open sampleFS ''/failing'' = Inr failingDir \<and>
   readDirN sampleFS ''/failing'' (- 1) =
     (Failed (OSError \<lparr>Op = ''readdirent'', Path = ''/failing'', Err = EIO\<rparr>), [])"
  by code_simp

text \<open>
  Claim C6, as the code has it. The claim holds of a directory that opens and whose
  batch reads do not fail: the unbounded listing then returns, in the order of reading,
  the names of exactly the entries whose kind after following a link once is directory or
  regular file, a directory's name with the separator appended and a regular file's name
  as it is; so the number of names is the number of regular files plus the number of
  directories, both counted after the links have been followed. When a batch read fails,
  the call returns the error of that read and no name at all (line 52).
\<close>

theorem readDir_lists_files_and_directories:
  "Open fs dirPath = Inr d \<Longrightarrow>
   (fault d = None \<longrightarrow>
      fst (readDirN fs dirPath (- 1)) =
        Returned
          (map (\<lambda>fi. if kindOf fs dirPath fi = Directory then Name fi @ SlashSeparator else Name fi)
             (filter (\<lambda>fi. kindOf fs dirPath fi \<noteq> Skipped) (pending d)))) \<and>
   (\<forall>e. fault d = Some e \<longrightarrow> fst (readDirN fs dirPath (- 1)) = Failed (OSError e)) \<and>
   length (filter (\<lambda>fi. kindOf fs dirPath fi \<noteq> Skipped) (pending d)) =
     length (filter (\<lambda>fi. kindOf fs dirPath fi = RegularFile) (pending d)) +
     length (filter (\<lambda>fi. kindOf fs dirPath fi = Directory) (pending d))"
proof -
  assume o: "Open fs dirPath = Inr d"
  have run: "fst (readDirN fs dirPath (- 1)) =
      (case fault d of
         None \<Rightarrow> Returned (listedNames fs dirPath (pending d))
       | Some e \<Rightarrow> Failed (OSError e))"
    using readDirN_unbounded [OF o, of "- 1"] by simp
  have ok: "fst (readDirN fs dirPath (- 1)) =
        Returned
          (map (\<lambda>fi. if kindOf fs dirPath fi = Directory then Name fi @ SlashSeparator else Name fi)
             (filter (\<lambda>fi. kindOf fs dirPath fi \<noteq> Skipped) (pending d)))"
    if "fault d = None"
    using run that by (simp add: listedNames_filter)
  have failed: "fst (readDirN fs dirPath (- 1)) = Failed (OSError e)" if "fault d = Some e" for e
    using run that by simp
  have "length (filter (\<lambda>fi. kindOf fs dirPath fi \<noteq> Skipped) (pending d)) =
      length (listedNames fs dirPath (pending d))"
    by (simp add: listedNames_filter)
  then have count: "length (filter (\<lambda>fi. kindOf fs dirPath fi \<noteq> Skipped) (pending d)) =
     length (filter (\<lambda>fi. kindOf fs dirPath fi = RegularFile) (pending d)) +
     length (filter (\<lambda>fi. kindOf fs dirPath fi = Directory) (pending d))"
    by (simp add: length_listedNames)
  from ok failed count show ?thesis by blast
qed

text \<open>
  The sample directory: a directory, two regular files, a link to a directory, a link to
  a regular file, a link that does not resolve and a device; and the directory whose
  read fails.
\<close>

theorem readDir_lists_files_and_directories_witness:
  "Open sampleFS ''/data'' = Inr sampleDir \<and> fault sampleDir = None \<and>
   fst (readDirN sampleFS ''/data'' (- 1)) =
     Returned [''bucket/'', ''a.txt'', ''to-dir/'', ''to-file'', ''b.txt''] \<and>
   map (\<lambda>fi. if kindOf sampleFS ''/data'' fi = Directory then Name fi @ SlashSeparator else Name fi)
     (filter (\<lambda>fi. kindOf sampleFS ''/data'' fi \<noteq> Skipped) (pending sampleDir)) =
     [''bucket/'', ''a.txt'', ''to-dir/'', ''to-file'', ''b.txt''] \<and>
   length (filter (\<lambda>fi. kindOf sampleFS ''/data'' fi = RegularFile) (pending sampleDir)) = 3 \<and>
   length (filter (\<lambda>fi. kindOf sampleFS ''/data'' fi = Directory) (pending sampleDir)) = 2 \<and>
   Open sampleFS ''/failing'' = Inr failingDir \<and>
   fault failingDir = Some \<lparr>Op = ''readdirent'', Path = ''/failing'', Err = EIO\<rparr> \<and>
   fst (readDirN sampleFS ''/failing'' (- 1)) =
     Failed (OSError \<lparr>Op = ''readdirent'', Path = ''/failing'', Err = EIO\<rparr>)"
proof -
  have o: "Open sampleFS ''/data'' = Inr sampleDir"
    by (simp add: sampleFS_def)
  have f: "fault sampleDir = None"
    by (simp add: sampleDir_def)
  have names: "map (\<lambda>fi. if kindOf sampleFS ''/data'' fi = Directory then Name fi @ SlashSeparator else Name fi)
     (filter (\<lambda>fi. kindOf sampleFS ''/data'' fi \<noteq> Skipped) (pending sampleDir)) =
     [''bucket/'', ''a.txt'', ''to-dir/'', ''to-file'', ''b.txt'']"
    by code_simp
  have n: "length (filter (\<lambda>fi. kindOf sampleFS ''/data'' fi = RegularFile) (pending sampleDir)) = 3"
    by code_simp
  have m: "length (filter (\<lambda>fi. kindOf sampleFS ''/data'' fi = Directory) (pending sampleDir)) = 2"
    by code_simp
  from readDir_lists_files_and_directories [OF o] f names
  have 1: "fst (readDirN sampleFS ''/data'' (- 1)) =
     Returned [''bucket/'', ''a.txt'', ''to-dir/'', ''to-file'', ''b.txt'']"
    by simp
  have o': "Open sampleFS ''/failing'' = Inr failingDir"
    by (simp add: sampleFS_def)
  have f': "fault failingDir = Some \<lparr>Op = ''readdirent'', Path = ''/failing'', Err = EIO\<rparr>"
    by (simp add: failingDir_def)
  from readDir_lists_files_and_directories [OF o'] f'
  have 2: "fst (readDirN sampleFS ''/failing'' (- 1)) =
     Failed (OSError \<lparr>Op = ''readdirent'', Path = ''/failing'', Err = EIO\<rparr>)"
    by blast
  from o f names n m 1 o' f' 2 show ?thesis by blast
qed

text \<open>
  Against C6 as stated (for every directory the unbounded listing returns N+M names): a
  directory that opens and holds one regular file and no directory, so N+M is 1, and
  whose read fails; the call returns the error and no name.
\<close>

theorem readDir_read_failure_lists_nothing:
  "Open sampleFS ''/failing'' = Inr failingDir \<and>
   pending failingDir = [regularNamed ''x''] \<and>
   kindOf sampleFS ''/failing'' (regularNamed ''x'') = RegularFile \<and>
   readDirN sampleFS ''/failing'' (- 1) =
     (Failed (OSError \<lparr>Op = ''readdirent'', Path = ''/failing'', Err = EIO\<rparr>), [])"
  by code_simp

text \<open>
  Claim C7 fails on the code. The second test of the open error looks for the words
  \<open>not a directory\<close> in the text of the error, and that text holds the path: a
  directory whose own path has these words and which cannot be opened for lack of
  permission is reported as \<open>errFileNotFound\<close>, where the claim (and the comment of
  line 29) has the permission error returned unchanged. It is so for every error of the
  open on such a path (lemma \<open>path_with_the_words_is_not_found\<close>); the errors for a path
  that does not exist and for a component that is not a directory are translated as the
  claim says (lemmas \<open>readDirN_open_failure\<close> and \<open>ENOTDIR_is_not_found\<close>).
\<close>

theorem readDirN_permission_denied_reported_not_found:
  "Open sampleFS ''/srv/not a directory'' =
     Inl \<lparr>Op = ''open'', Path = ''/srv/not a directory'', Err = EACCES\<rparr> \<and>
   PathError_Error \<lparr>Op = ''open'', Path = ''/srv/not a directory'', Err = EACCES\<rparr> =
     ''open /srv/not a directory: permission denied'' \<and>
   readDirN sampleFS ''/srv/not a directory'' (- 1) = (Failed errFileNotFound, [])"
  by code_simp

text \<open>
  Claim C10. In a bounded listing a batch takes from \<open>remaining\<close> one unit for every
  entry but a link that does not resolve; an entry that is dropped because it is neither
  a directory nor a regular file takes its unit all the same. So the names returned and
  the dropped entries that took a unit, among the entries examined, are together at
  most \<open>count\<close>: a dropped entry is never made up for.
\<close>

theorem bounded_listing_budget:
  "0 < count \<Longrightarrow>
   (Mode fi AND ModeSymlink = ModeSymlink \<and> Stat fs (Join dirPath (Name fi)) = Inl err \<longrightarrow>
      scanEntries fs dirPath count [fi] (entries, remaining, lg0) =
        (entries, remaining, lg0 @ [(Join dirPath (Name fi), err)])) \<and>
   (Mode fi AND ModeSymlink \<noteq> ModeSymlink \<and> \<not> IsDir (Mode fi) \<and> \<not> IsRegular (Mode fi) \<longrightarrow>
      scanEntries fs dirPath count [fi] (entries, remaining, lg0) = (entries, remaining - 1, lg0)) \<and>
   scanEntries fs dirPath count fis (entries, remaining, lg0) =
     (entries @ listedNames fs dirPath fis,
      remaining - int (length (filter (usesBudget fs dirPath) fis)),
      lg0 @ resolutionFailures fs dirPath fis) \<and>
   (\<forall>d es lg. Open fs dirPath = Inr d \<longrightarrow> readDirN fs dirPath count = (Returned es, lg) \<longrightarrow>
      (\<exists>n. es = listedNames fs dirPath (take n (pending d)) \<and>
           lg = resolutionFailures fs dirPath (take n (pending d)) \<and>
           int (length es) +
           int (length (filter (\<lambda>fi. usesBudget fs dirPath fi \<and> kindOf fs dirPath fi = Skipped)
                          (take n (pending d)))) \<le> count))"
proof -
  assume pos: "0 < count"
  have scan: "scanEntries fs dirPath count fis (entries, remaining, lg0) =
     (entries @ listedNames fs dirPath fis,
      remaining - int (length (filter (usesBudget fs dirPath) fis)),
      lg0 @ resolutionFailures fs dirPath fis)"
    using pos by (simp add: scanEntries_eq budgetUsed_def)
  have link: "scanEntries fs dirPath count [fi] (entries, remaining, lg0) =
        (entries, remaining, lg0 @ [(Join dirPath (Name fi), err)])"
    if "Mode fi AND ModeSymlink = ModeSymlink \<and> Stat fs (Join dirPath (Name fi)) = Inl err"
    using that by simp
  have other: "scanEntries fs dirPath count [fi] (entries, remaining, lg0) = (entries, remaining - 1, lg0)"
    if "Mode fi AND ModeSymlink \<noteq> ModeSymlink \<and> \<not> IsDir (Mode fi) \<and> \<not> IsRegular (Mode fi)"
    using that pos by simp
  have "\<exists>n. es = listedNames fs dirPath (take n (pending d)) \<and>
           lg = resolutionFailures fs dirPath (take n (pending d)) \<and>
           int (length es) +
           int (length (filter (\<lambda>fi. usesBudget fs dirPath fi \<and> kindOf fs dirPath fi = Skipped)
                          (take n (pending d)))) \<le> count"
    if o: "Open fs dirPath = Inr d" and run: "readDirN fs dirPath count = (Returned es, lg)"
    for d es lg
  proof -
    from readDirN_bounded [OF o pos] run
    obtain n where n: "int (budgetUsed fs dirPath (take n (pending d))) \<le> count"
      and es: "es = listedNames fs dirPath (take n (pending d))"
      and lg: "lg = resolutionFailures fs dirPath (take n (pending d))"
      by auto
    from n have "int (length es) +
           int (length (filter (\<lambda>fi. usesBudget fs dirPath fi \<and> kindOf fs dirPath fi = Skipped)
                          (take n (pending d)))) \<le> count"
      by (simp add: es budget_split)
    with es lg show ?thesis by blast
  qed
  with scan link other show ?thesis by blast
qed

text \<open>
  A link that does not resolve takes no unit and a device takes one. A later entry can
  take the place of the link: with \<open>count = 1001\<close> on a directory of that link and 1001
  regular files, all 1001 files are returned, the last of them the 1002nd entry read.
\<close>

theorem bounded_listing_budget_witness:
  "0 < (1001::int) \<and>
   scanEntries largeFS ''/large'' 1001 [symlinkNamed ''dangling''] ([], 1001, []) =
     ([], 1001,
      [(Join ''/large'' ''dangling'', \<lparr>Op = ''stat'', Path = ''/large/dangling'', Err = ENOENT\<rparr>)]) \<and>
   scanEntries largeFS ''/large-dev'' 1001 [deviceNamed ''null''] ([], 1001, []) = ([], 1000, []) \<and>
   Open largeFS ''/large'' =
     Inr \<lparr>pending = symlinkNamed ''dangling'' # manyFiles 0 1001, fault = None, atHand = []\<rparr> \<and>
   readDirN largeFS ''/large'' 1001 =
     (Returned (map fileName [0..<1001]),
      [(Join ''/large'' ''dangling'', \<lparr>Op = ''stat'', Path = ''/large/dangling'', Err = ENOENT\<rparr>)]) \<and>
   (\<exists>n. map fileName [0..<1001] =
          listedNames largeFS ''/large'' (take n (symlinkNamed ''dangling'' # manyFiles 0 1001)) \<and>
        int (length (map fileName [0..<1001])) +
        int (length (filter (\<lambda>fi. usesBudget largeFS ''/large'' fi \<and> kindOf largeFS ''/large'' fi = Skipped)
                       (take n (symlinkNamed ''dangling'' # manyFiles 0 1001)))) \<le> 1001)"
proof -
  let ?d = "\<lparr>pending = symlinkNamed ''dangling'' # manyFiles 0 1001, fault = None, atHand = []\<rparr>"
  let ?e = "\<lparr>Op = ''stat'', Path = ''/large/dangling'', Err = ENOENT\<rparr>"
  have pos: "0 < (1001::int)"
    by simp
  have o: "Open largeFS ''/large'' = Inr ?d"
    by (simp add: largeFS_def)
  note run = link_is_backfilled
  have link: "Mode (symlinkNamed ''dangling'') AND ModeSymlink = ModeSymlink \<and>
      Stat largeFS (Join ''/large'' (Name (symlinkNamed ''dangling''))) = Inl ?e"
    by (simp add: symlinkNamed_def ModeSymlink_def largeFS_def)
  have dev: "Mode (deviceNamed ''null'') AND ModeSymlink \<noteq> ModeSymlink \<and>
      \<not> IsDir (Mode (deviceNamed ''null'')) \<and> \<not> IsRegular (Mode (deviceNamed ''null''))"
    by (simp add: deviceNamed_def IsDir_def IsRegular_def ModeDir_def
      ModeType_def ModeSymlink_def ModeNamedPipe_def ModeSocket_def ModeDevice_def
      ModeCharDevice_def ModeIrregular_def)
  from bounded_listing_budget
    [OF pos, where fi = "symlinkNamed ''dangling''" and fs = largeFS and dirPath = "''/large''"
      and err = ?e and entries = "[]" and remaining = 1001 and ?lg0.0 = "[]" and fis = "[]"]
    link o run
  have 1: "scanEntries largeFS ''/large'' 1001 [symlinkNamed ''dangling''] ([], 1001, []) =
     ([], 1001, [(Join ''/large'' ''dangling'', ?e)])"
    and 3: "\<exists>n. map fileName [0..<1001] = listedNames largeFS ''/large'' (take n (pending ?d)) \<and>
        [(Join ''/large'' ''dangling'', ?e)] = resolutionFailures largeFS ''/large'' (take n (pending ?d)) \<and>
        int (length (map fileName [0..<1001])) +
        int (length (filter (\<lambda>fi. usesBudget largeFS ''/large'' fi \<and> kindOf largeFS ''/large'' fi = Skipped)
                       (take n (pending ?d)))) \<le> 1001"
    by (simp_all add: symlinkNamed_def)
  from bounded_listing_budget
    [OF pos, where fi = "deviceNamed ''null''" and fs = largeFS and dirPath = "''/large-dev''"
      and entries = "[]" and remaining = 1001 and ?lg0.0 = "[]" and fis = "[]"]
    dev
  have 2: "scanEntries largeFS ''/large-dev'' 1001 [deviceNamed ''null''] ([], 1001, []) = ([], 1000, [])"
    by simp
  from 3 have 4: "\<exists>n. map fileName [0..<1001] =
          listedNames largeFS ''/large'' (take n (symlinkNamed ''dangling'' # manyFiles 0 1001)) \<and>
        int (length (map fileName [0..<1001])) +
        int (length (filter (\<lambda>fi. usesBudget largeFS ''/large'' fi \<and> kindOf largeFS ''/large'' fi = Skipped)
                       (take n (symlinkNamed ''dangling'' # manyFiles 0 1001)))) \<le> 1001"
    by auto
  from pos 1 2 o run 4 show ?thesis by blast
qed

section \<open>Properties of the statistics\<close>

subsection \<open>One table\<close>

text \<open>
  On a non-nil receiver \<open>Inc\<close> and \<open>Dec\<close> return, and the table afterwards is the
  table before with the key incremented or decremented. A decrement keeps the counts at
  or above zero; an increment does unless the count is the largest \<open>int\<close>.
\<close>

lemma Inc_Some:
  "\<exists>s' h'. Inc (Some s) api h = Inr (Some s', h') \<and>
     countOf (Some s') h' = incremented (countOf (Some s) h) api"
  by (auto simp: Inc_def Lock_def makeMap_def assign_def countOf_def incremented_def
      split: option.split)

lemma Dec_Some:
  "\<exists>h'. Dec (Some s) api h = Inr (Some s, h') \<and>
     countOf (Some s) h' = decremented (countOf (Some s) h) api"
  by (auto simp: Dec_def Lock_def assign_def countOf_def decremented_def word_sless_alt
      split: option.split)

lemma Dec_noop:
  "\<not> (\<exists>v. countOf (Some s) h api = Some v \<and> 0 < sint v) \<Longrightarrow> Dec (Some s) api h = Inr (Some s, h)"
  by (auto simp: Dec_def Lock_def countOf_def word_sless_alt split: option.split)

lemma Dec_positive:
  "countOf (Some s) h api = Some v \<Longrightarrow> 0 < sint v \<Longrightarrow>
   \<exists>h'. Dec (Some s) api h = Inr (Some s, h') \<and>
        countOf (Some s) h' = (countOf (Some s) h)(api \<mapsto> v - 1)"
  by (auto simp: Dec_def Lock_def countOf_def assign_def word_sless_alt split: option.splits)

lemma sint_maxInt: "sint maxInt = 9223372036854775807"
  by (simp add: maxInt_def)

lemma sint_succ:
  fixes v :: goint
  assumes "0 \<le> sint v" and "v \<noteq> maxInt"
  shows "sint (v + 1) = sint v + 1"
proof -
  have "sint v \<noteq> sint maxInt"
    using assms(2) by (auto dest: signed_word_eqI)
  moreover have "sint v < 2 ^ 63"
    using sint_lt [of v] by simp
  ultimately have "sint v + 1 < 2 ^ 63"
    by (simp add: sint_maxInt)
  with assms(1) show ?thesis
    by (simp add: sint_word_ariths signed_take_bit_int_eq_self)
qed

lemma sint_pred:
  fixes v :: goint
  assumes "0 < sint v"
  shows "sint (v - 1) = sint v - 1"
proof -
  have "sint v < 2 ^ 63"
    using sint_lt [of v] by simp
  with assms show ?thesis
    by (simp add: sint_word_ariths signed_take_bit_int_eq_self)
qed

lemma nonNegative_decremented: "nonNegative t \<Longrightarrow> nonNegative (decremented t api)"
  by (auto simp: nonNegative_def decremented_def sint_pred split: option.splits if_splits)

lemma nonNegative_incremented:
  "nonNegative t \<Longrightarrow> t api \<noteq> Some maxInt \<Longrightarrow> nonNegative (incremented t api)"
  by (auto simp: nonNegative_def incremented_def sint_succ split: option.splits if_splits)

lemma incremented_neq: "incremented t api \<noteq> t"
proof
  assume "incremented t api = t"
  then have "incremented t api api = t api" by simp
  then show False
    by (cases "t api") (simp_all add: incremented_def)
qed

lemma calls_nonNegative:
  "nonNegative (countOf (Some s) h) \<Longrightarrow> withinRange cs (Some s, h) \<Longrightarrow>
   \<exists>s' h'. calls cs (Some s, h) = Inr (Some s', h') \<and> nonNegative (countOf (Some s') h')"
proof (induction cs arbitrary: s h)
  case Nil
  then show ?case by simp
next
  case (Cons c cs)
  show ?case
  proof (cases c)
    case (IncCall api)
    obtain s1 h1 where inc: "Inc (Some s) api h = Inr (Some s1, h1)"
      and cnt: "countOf (Some s1) h1 = incremented (countOf (Some s) h) api"
      using Inc_Some by blast
    from Cons.prems IncCall inc have "countOf (Some s) h api \<noteq> Some maxInt"
      and rest: "withinRange cs (Some s1, h1)"
      by simp_all
    with Cons.prems(1) cnt have "nonNegative (countOf (Some s1) h1)"
      by (simp add: nonNegative_incremented)
    from Cons.IH [OF this rest] IncCall inc show ?thesis
      by simp
  next
    case (DecCall api)
    obtain h1 where dec: "Dec (Some s) api h = Inr (Some s, h1)"
      and cnt: "countOf (Some s) h1 = decremented (countOf (Some s) h) api"
      using Dec_Some by blast
    from Cons.prems DecCall dec have rest: "withinRange cs (Some s, h1)"
      by simp
    from Cons.prems(1) cnt have "nonNegative (countOf (Some s) h1)"
      by (simp add: nonNegative_decremented)
    from Cons.IH [OF this rest] DecCall dec show ?thesis
      by simp
  qed
qed

lemma countsWithin_incremented:
  assumes "countsWithin b t" and "0 \<le> b" and "b < 9223372036854775807"
  shows "countsWithin (b + 1) (incremented t api)"
proof -
  have "0 \<le> sint (v + 1) \<and> sint (v + 1) \<le> b + 1" if "t api = Some v" for v
  proof -
    from assms(1) that have v: "0 \<le> sint v" "sint v \<le> b"
      by (auto simp: countsWithin_def)
    with assms(3) have "v \<noteq> maxInt"
      by (auto simp: sint_maxInt)
    with v show ?thesis
      by (simp add: sint_succ)
  qed
  moreover have "0 \<le> sint v \<and> sint v \<le> b + 1" if "t k = Some v" for k v
    using assms(1) that by (fastforce simp: countsWithin_def)
  ultimately show ?thesis
    using assms(2) by (auto simp: countsWithin_def incremented_def split: option.splits)
qed

lemma countsWithin_decremented: "countsWithin b t \<Longrightarrow> countsWithin b (decremented t api)"
  by (auto simp: countsWithin_def decremented_def sint_pred split: option.splits if_splits)
    fastforce+

lemma short_runs_withinRange:
  "countsWithin b (countOf (Some s) h) \<Longrightarrow> 0 \<le> b \<Longrightarrow> b + int (length cs) \<le> 9223372036854775807 \<Longrightarrow>
   withinRange cs (Some s, h)"
proof (induction cs arbitrary: s h b)
  case Nil
  then show ?case by simp
next
  case (Cons c cs)
  show ?case
  proof (cases c)
    case (IncCall api)
    obtain s1 h1 where inc: "Inc (Some s) api h = Inr (Some s1, h1)"
      and cnt: "countOf (Some s1) h1 = incremented (countOf (Some s) h) api"
      using Inc_Some by blast
    from Cons.prems have b: "b < 9223372036854775807"
      by simp
    have "countOf (Some s) h api \<noteq> Some maxInt"
    proof
      assume "countOf (Some s) h api = Some maxInt"
      with Cons.prems(1) have "sint maxInt \<le> b"
        by (auto simp: countsWithin_def)
      with b show False
        by (simp add: sint_maxInt)
    qed
    moreover have "countsWithin (b + 1) (countOf (Some s1) h1)"
      unfolding cnt using Cons.prems(1,2) b by (rule countsWithin_incremented)
    then have "withinRange cs (Some s1, h1)"
      using Cons.prems by (intro Cons.IH [of "b + 1"]) simp_all
    ultimately show ?thesis
      using IncCall inc by simp
  next
    case (DecCall api)
    obtain h1 where dec: "Dec (Some s) api h = Inr (Some s, h1)"
      and cnt: "countOf (Some s) h1 = decremented (countOf (Some s) h) api"
      using Dec_Some by blast
    have "countsWithin b (countOf (Some s) h1)"
      unfolding cnt using Cons.prems(1) by (rule countsWithin_decremented)
    then have "withinRange cs (Some s, h1)"
      using Cons.prems by (intro Cons.IH [of b]) simp_all
    then show ?thesis
      using DecCall dec by simp
  qed
qed

lemma new_table_withinRange:
  "int (length cs) \<le> 9223372036854775807 \<Longrightarrow>
   withinRange cs (Some \<lparr>APIStats = None\<rparr>, h) \<and> nonNegative (countOf (Some \<lparr>APIStats = None\<rparr>) h)"
  using short_runs_withinRange [of 0 "\<lparr>APIStats = None\<rparr>" h cs]
  by (simp add: countsWithin_def countOf_def nonNegative_def)

subsection \<open>Several tables in one store\<close>

text \<open>
  An \<open>Inc\<close> on one table leaves the tables with other maps as they are, and the maps
  allocated and distinct. \<open>Load\<close> hands out the reference of the table, so
  \<open>toServerHTTPStats\<close> returns the three references.
\<close>

lemma Inc_frame:
  assumes "allocated h s" and "allocated h t" and "allocated h u" and "separate s t" and "separate u s"
    and "separate u t"
  shows "\<exists>s' h'. Inc (Some s) api h = Inr (Some s', h') \<and>
           countOf (Some s') h' = incremented (countOf (Some s) h) api \<and>
           countOf (Some t) h' = countOf (Some t) h \<and>
           countOf (Some u) h' = countOf (Some u) h \<and>
           allocated h' s' \<and> allocated h' t \<and> allocated h' u \<and>
           separate s' t \<and> separate t s' \<and> separate u s' \<and> separate u t"
  using assms
  by (auto simp: Inc_def Lock_def makeMap_def assign_def countOf_def incremented_def
      allocated_def separate_def split: option.splits)

lemma newHTTPStats_wellFormed: "wellFormed newHTTPStats h"
  by (simp add: wellFormed_def allocated_def separate_def newHTTPStats_def)

lemma held_Some [simp]: "held s (Some s') = s'"
  by (simp add: held_def)

lemma toServerHTTPStats_eq:
  "toServerHTTPStats st =
     Inr \<lparr>CurrentS3Requests = \<lparr>APIStatsMap = APIStats (currentS3Requests st)\<rparr>,
          TotalS3Requests = \<lparr>APIStatsMap = APIStats (totalS3Requests st)\<rparr>,
          TotalS3Errors = \<lparr>APIStatsMap = APIStats (totalS3Errors st)\<rparr>\<rparr>"
  by (simp add: toServerHTTPStats_def Load_def Lock_def)

lemma Inc_existing:
  "APIStats s = Some m \<Longrightarrow>
   \<exists>h'. Inc (Some s) api h = Inr (Some s, h') \<and> cells h' m = incremented (cells h m) api"
  by (auto simp: Inc_def Lock_def assign_def incremented_def split: option.split)

lemma Dec_existing:
  "APIStats s = Some m \<Longrightarrow>
   \<exists>h'. Dec (Some s) api h = Inr (Some s, h') \<and> cells h' m = decremented (cells h m) api"
  by (auto simp: Dec_def Lock_def assign_def decremented_def word_sless_alt split: option.split)

lemma Inc_nil_map:
  "APIStats s = None \<Longrightarrow>
   \<exists>h'. Inc (Some s) api h = Inr (Some (s\<lparr>APIStats := Some (free h)\<rparr>), h') \<and>
        cells h' (free h) = [api \<mapsto> 1] \<and> (\<forall>m. m \<noteq> free h \<longrightarrow> cells h' m = cells h m)"
  by (auto simp: Inc_def Lock_def makeMap_def assign_def)

subsection \<open>Byte counters, one caller after the other\<close>

text \<open>
  \<open>t\<close> increments by \<open>n\<close>, made in turn, add \<open>t * n\<close> modulo \<open>2^64\<close>; from a new
  counter, with \<open>n\<close> not negative and \<open>t * n\<close> below \<open>2^64\<close>, the counter reads
  exactly \<open>t * n\<close>.
\<close>

lemma incInputBytes_in_turn:
  "totalInputBytes (((\<lambda>s. incInputBytes s n) ^^ t) s) = totalInputBytes s + of_nat t * word_of_int n"
  by (induction t) (simp_all add: incInputBytes_def algebra_simps)

lemma incInputBytes_in_turn_exact:
  assumes "0 \<le> n" and "int t * n < 2 ^ 64"
  shows "uint (totalInputBytes (((\<lambda>s. incInputBytes s n) ^^ t) newConnStats)) = int t * n"
proof -
  have "totalInputBytes (((\<lambda>s. incInputBytes s n) ^^ t) newConnStats) = word_of_int (int t * n)"
    by (simp add: incInputBytes_in_turn newConnStats_def)
  then have "uint (totalInputBytes (((\<lambda>s. incInputBytes s n) ^^ t) newConnStats)) =
      take_bit 64 (int t * n)"
    by (simp only: uint_word_of_int_eq) simp
  moreover have "0 \<le> int t * n"
    using assms(1) by simp
  ultimately show ?thesis
    using assms(2) by (simp add: take_bit_int_eq_self)
qed

subsection \<open>The claims about the statistics\<close>

text \<open>
  Claim C3, as the code has it. \<open>Dec\<close> takes one from a count that is there and
  positive, and otherwise leaves the store as it is; it keeps every count of the table
  at or above zero. \<open>Inc\<close> adds one in 64-bit arithmetic, so it keeps the counts at or
  above zero for as long as it is not applied to a count that is the largest \<open>int\<close>:
  along a run of \<open>Inc\<close> and \<open>Dec\<close> calls that stays within that range
  (\<open>withinRange\<close>), on a non-nil receiver, every call returns and no count is negative
  at the end. Every run of at most 9223372036854775807 calls on a new table is such a run.
\<close>

theorem counts_stay_nonnegative:
  "(nonNegative (countOf (Some s) h) \<and> withinRange cs (Some s, h) \<longrightarrow>
      (\<exists>s' h'. calls cs (Some s, h) = Inr (Some s', h') \<and> nonNegative (countOf (Some s') h'))) \<and>
   (int (length cs) \<le> 9223372036854775807 \<longrightarrow>
      (\<exists>s' h'. calls cs (Some \<lparr>APIStats = None\<rparr>, h) = Inr (Some s', h') \<and>
         nonNegative (countOf (Some s') h'))) \<and>
   (\<exists>h'. Dec (Some s) api h = Inr (Some s, h') \<and>
         countOf (Some s) h' = decremented (countOf (Some s) h) api \<and>
         (nonNegative (countOf (Some s) h) \<longrightarrow> nonNegative (countOf (Some s) h')) \<and>
         ((\<forall>v. countOf (Some s) h api = Some v \<longrightarrow> sint v \<le> 0) \<longrightarrow> h' = h))"
proof -
  have fresh: "\<exists>s' h'. calls cs (Some \<lparr>APIStats = None\<rparr>, h) = Inr (Some s', h') \<and>
         nonNegative (countOf (Some s') h')"
    if "int (length cs) \<le> 9223372036854775807"
    using new_table_withinRange [OF that, of h] calls_nonNegative [of "\<lparr>APIStats = None\<rparr>" h cs]
    by blast
  obtain h' where dec: "Dec (Some s) api h = Inr (Some s, h')"
    and cnt: "countOf (Some s) h' = decremented (countOf (Some s) h) api"
    using Dec_Some by blast
  have "h' = h" if "\<forall>v. countOf (Some s) h api = Some v \<longrightarrow> sint v \<le> 0"
  proof -
    from that have "\<not> (\<exists>v. countOf (Some s) h api = Some v \<and> 0 < sint v)"
      by fastforce
    from Dec_noop [OF this] dec show ?thesis by simp
  qed
  moreover have "nonNegative (countOf (Some s) h')" if "nonNegative (countOf (Some s) h)"
    using that by (simp add: cnt nonNegative_decremented)
  ultimately show ?thesis
    using dec cnt calls_nonNegative [of s h cs] fresh by blast
qed

text \<open>
  A run from the new, empty table: more decrements than increments, ending at zero; the
  first decrement finds no key and leaves the store as it is.
\<close>

theorem counts_stay_nonnegative_witness:
  "nonNegative (countOf (Some \<lparr>APIStats = None\<rparr>) emptyStore) \<and>
   withinRange [DecCall ''GetObject'', IncCall ''GetObject'', IncCall ''GetObject'',
                DecCall ''GetObject'', DecCall ''GetObject'', DecCall ''GetObject'']
     (Some \<lparr>APIStats = None\<rparr>, emptyStore) \<and>
   int (length [DecCall ''GetObject'', IncCall ''GetObject'', IncCall ''GetObject'',
                DecCall ''GetObject'', DecCall ''GetObject'', DecCall ''GetObject''])
     \<le> 9223372036854775807 \<and>
   countAfter
     (calls [DecCall ''GetObject'', IncCall ''GetObject'', IncCall ''GetObject'',
             DecCall ''GetObject'', DecCall ''GetObject'', DecCall ''GetObject'']
        (Some \<lparr>APIStats = None\<rparr>, emptyStore)) ''GetObject'' = Some 0 \<and>
   (\<exists>s' h'.
      calls [DecCall ''GetObject'', IncCall ''GetObject'', IncCall ''GetObject'',
             DecCall ''GetObject'', DecCall ''GetObject'', DecCall ''GetObject'']
        (Some \<lparr>APIStats = None\<rparr>, emptyStore) = Inr (Some s', h') \<and>
      nonNegative (countOf (Some s') h')) \<and>
   Dec (Some \<lparr>APIStats = None\<rparr>) ''GetObject'' emptyStore =
     Inr (Some \<lparr>APIStats = None\<rparr>, emptyStore)"
proof -
  let ?cs = "[DecCall ''GetObject'', IncCall ''GetObject'', IncCall ''GetObject'',
              DecCall ''GetObject'', DecCall ''GetObject'', DecCall ''GetObject'']"
  let ?s = "\<lparr>APIStats = None\<rparr>"
  have nn: "nonNegative (countOf (Some ?s) emptyStore)"
    by (simp add: nonNegative_def countOf_def)
  have wr: "withinRange ?cs (Some ?s, emptyStore)"
    by (simp add: Inc_def Dec_def Lock_def makeMap_def assign_def countOf_def emptyStore_def
        maxInt_def word_sless_alt)
  have len: "int (length ?cs) \<le> 9223372036854775807"
    by simp
  have fin: "countAfter (calls ?cs (Some ?s, emptyStore)) ''GetObject'' = Some 0"
    by (simp add: countAfter_def Inc_def Dec_def Lock_def makeMap_def assign_def countOf_def
        emptyStore_def word_sless_alt)
  have none: "\<forall>v. countOf (Some ?s) emptyStore ''GetObject'' = Some v \<longrightarrow> sint v \<le> 0"
    by (simp add: countOf_def)
  from counts_stay_nonnegative [where s = ?s and h = emptyStore and cs = ?cs and api = "''GetObject''"]
    nn wr none
  have 1: "\<exists>s' h'. calls ?cs (Some ?s, emptyStore) = Inr (Some s', h') \<and>
      nonNegative (countOf (Some s') h')"
    and 2: "Dec (Some ?s) ''GetObject'' emptyStore = Inr (Some ?s, emptyStore)"
    by blast+
  from nn wr len fin 1 2 show ?thesis by blast
qed

text \<open>
  Against C3 as stated (for any sequence of calls every count stays at or above zero): a
  table whose count is 9223372036854775807, and one \<open>Inc\<close>.
\<close>

theorem Inc_at_maxInt_goes_negative:
  "countAfter (Inr (Some saturatedTable, saturatedStore)) ''GetObject'' =
     Some 9223372036854775807 \<and>
   countAfter (calls [IncCall ''GetObject''] (Some saturatedTable, saturatedStore)) ''GetObject'' =
     Some (- 9223372036854775808)"
  by (simp add: countAfter_def Inc_def Lock_def assign_def countOf_def saturatedTable_def
      saturatedStore_def maxInt_def)

text \<open>
  Claim C4, as the code has it. \<open>Load\<close> returns \<open>stats.APIStats\<close>, the map itself,
  so the structure \<open>toServerHTTPStats\<close> returns holds the three tables' own maps. It
  shows the tables as they are at the call, but it is not independent of what comes
  after: an \<open>Inc\<close> or \<open>Dec\<close> on a table whose map exists updates the map the
  snapshot holds, and an \<open>Inc\<close> always changes what the snapshot shows. Only a table
  whose map is still nil at the snapshot stays empty there, since the later \<open>Inc\<close>
  makes a new map.
\<close>

theorem snapshot_shares_the_maps:
  "toServerHTTPStats st =
     Inr \<lparr>CurrentS3Requests = \<lparr>APIStatsMap = APIStats (currentS3Requests st)\<rparr>,
          TotalS3Requests = \<lparr>APIStatsMap = APIStats (totalS3Requests st)\<rparr>,
          TotalS3Errors = \<lparr>APIStatsMap = APIStats (totalS3Errors st)\<rparr>\<rparr> \<and>
   (APIStats s \<noteq> None \<longrightarrow>
      (\<exists>h'. Inc (Some s) api h = Inr (Some s, h') \<and>
            seenThrough h' \<lparr>APIStatsMap = APIStats s\<rparr> =
              incremented (seenThrough h \<lparr>APIStatsMap = APIStats s\<rparr>) api \<and>
            seenThrough h' \<lparr>APIStatsMap = APIStats s\<rparr> \<noteq> seenThrough h \<lparr>APIStatsMap = APIStats s\<rparr>) \<and>
      (\<exists>h'. Dec (Some s) api h = Inr (Some s, h') \<and>
            seenThrough h' \<lparr>APIStatsMap = APIStats s\<rparr> =
              decremented (seenThrough h \<lparr>APIStatsMap = APIStats s\<rparr>) api)) \<and>
   (APIStats s = None \<longrightarrow>
      (\<exists>s' h'. Inc (Some s) api h = Inr (Some s', h') \<and>
            seenThrough h' \<lparr>APIStatsMap = APIStats s\<rparr> = Map.empty \<and>
            countOf (Some s') h' = [api \<mapsto> 1]))"
proof -
  have inc: "\<exists>h'. Inc (Some s) api h = Inr (Some s, h') \<and>
            seenThrough h' \<lparr>APIStatsMap = APIStats s\<rparr> =
              incremented (seenThrough h \<lparr>APIStatsMap = APIStats s\<rparr>) api \<and>
            seenThrough h' \<lparr>APIStatsMap = APIStats s\<rparr> \<noteq> seenThrough h \<lparr>APIStatsMap = APIStats s\<rparr>"
    if "APIStats s \<noteq> None"
  proof -
    from that obtain m where m: "APIStats s = Some m" by blast
    from Inc_existing [OF m, of api h] obtain h' where
      "Inc (Some s) api h = Inr (Some s, h')" "cells h' m = incremented (cells h m) api"
      by blast
    then show ?thesis
      using incremented_neq [of "cells h m" api] by (auto simp: seenThrough_def m)
  qed
  have dec: "\<exists>h'. Dec (Some s) api h = Inr (Some s, h') \<and>
            seenThrough h' \<lparr>APIStatsMap = APIStats s\<rparr> =
              decremented (seenThrough h \<lparr>APIStatsMap = APIStats s\<rparr>) api"
    if "APIStats s \<noteq> None"
  proof -
    from that obtain m where m: "APIStats s = Some m" by blast
    from Dec_existing [OF m, of api h] show ?thesis
      by (auto simp: seenThrough_def m)
  qed
  have nil: "\<exists>s' h'. Inc (Some s) api h = Inr (Some s', h') \<and>
            seenThrough h' \<lparr>APIStatsMap = APIStats s\<rparr> = Map.empty \<and>
            countOf (Some s') h' = [api \<mapsto> 1]"
    if "APIStats s = None"
    using Inc_nil_map [OF that, of api h] that
    by (auto simp: seenThrough_def countOf_def)
  from inc dec nil show ?thesis
    by (simp add: toServerHTTPStats_eq)
qed

text \<open>Statistics whose total-requests table has a map and whose error table has none.\<close>

theorem snapshot_shares_the_maps_witness:
  "APIStats (totalS3Requests busyStats) \<noteq> None \<and>
   APIStats (totalS3Errors busyStats) = None \<and>
   toServerHTTPStats busyStats =
     Inr \<lparr>CurrentS3Requests = \<lparr>APIStatsMap = None\<rparr>,
          TotalS3Requests = \<lparr>APIStatsMap = Some 0\<rparr>,
          TotalS3Errors = \<lparr>APIStatsMap = None\<rparr>\<rparr> \<and>
   (\<exists>h'. Inc (Some (totalS3Requests busyStats)) ''GetObject'' busyStore =
           Inr (Some (totalS3Requests busyStats), h') \<and>
         seenThrough h' \<lparr>APIStatsMap = Some 0\<rparr> =
           incremented (seenThrough busyStore \<lparr>APIStatsMap = Some 0\<rparr>) ''GetObject'') \<and>
   (\<exists>s' h'. Inc (Some (totalS3Errors busyStats)) ''GetObject'' busyStore = Inr (Some s', h') \<and>
         seenThrough h' \<lparr>APIStatsMap = None\<rparr> = Map.empty)"
proof -
  have a: "APIStats (totalS3Requests busyStats) \<noteq> None"
    and b: "APIStats (totalS3Errors busyStats) = None"
    and r: "APIStats (totalS3Requests busyStats) = Some 0"
    and c: "APIStats (currentS3Requests busyStats) = None"
    by (simp_all add: busyStats_def)
  from snapshot_shares_the_maps [of busyStats "totalS3Requests busyStats" "''GetObject''" busyStore] a
  have 1: "toServerHTTPStats busyStats =
     Inr \<lparr>CurrentS3Requests = \<lparr>APIStatsMap = None\<rparr>,
          TotalS3Requests = \<lparr>APIStatsMap = Some 0\<rparr>,
          TotalS3Errors = \<lparr>APIStatsMap = None\<rparr>\<rparr>"
    and 2: "\<exists>h'. Inc (Some (totalS3Requests busyStats)) ''GetObject'' busyStore =
           Inr (Some (totalS3Requests busyStats), h') \<and>
         seenThrough h' \<lparr>APIStatsMap = Some 0\<rparr> =
           incremented (seenThrough busyStore \<lparr>APIStatsMap = Some 0\<rparr>) ''GetObject''"
    by (auto simp: r b c)
  from snapshot_shares_the_maps [of busyStats "totalS3Errors busyStats" "''GetObject''" busyStore] b
  have 3: "\<exists>s' h'. Inc (Some (totalS3Errors busyStats)) ''GetObject'' busyStore = Inr (Some s', h') \<and>
         seenThrough h' \<lparr>APIStatsMap = None\<rparr> = Map.empty"
    by auto
  from a b 1 2 3 show ?thesis by blast
qed

text \<open>
  Against C4 as stated (mutating a table after the snapshot does not change the
  snapshot's maps): the snapshot shows the count 1, and after one \<open>Inc\<close> on the live
  table the same snapshot shows 2.
\<close>

theorem snapshot_changes_with_the_table:
  "toServerHTTPStats busyStats =
     Inr \<lparr>CurrentS3Requests = \<lparr>APIStatsMap = None\<rparr>,
          TotalS3Requests = \<lparr>APIStatsMap = Some 0\<rparr>,
          TotalS3Errors = \<lparr>APIStatsMap = None\<rparr>\<rparr> \<and>
   seenThrough busyStore \<lparr>APIStatsMap = Some 0\<rparr> ''GetObject'' = Some 1 \<and>
   map_option (\<lambda>h'. seenThrough h' \<lparr>APIStatsMap = Some 0\<rparr> ''GetObject'')
     (storeAfter (Inc (Some (totalS3Requests busyStats)) ''GetObject'' busyStore)) = Some (Some 2)"
  by (simp add: toServerHTTPStats_def Load_def Lock_def Inc_def assign_def seenThrough_def
      storeAfter_def busyStats_def busyStore_def)

text \<open>
  Claim C5, as the code has it. On statistics whose maps are allocated and distinct,
  \<open>updateStats\<close> returns, and it adds one to \<open>totalS3Requests[api]\<close> exactly when the
  request is flagged as an S3 request and its path does not end with the metrics path
  (\<open>strings.HasSuffix\<close>, not equality); it adds one to \<open>totalS3Errors[api]\<close> exactly
  when, besides, the status code is outside 200 to 299 and not zero. Every other count of
  the two tables, and the table of current requests, stay as they are. (Adding one is
  \<open>incremented\<close>: a key that is not there is set to 1.)
\<close>

theorem updateStats_counts:
  assumes wf: "wellFormed st h"
  shows "\<exists>st' h' obs. updateStats mp st api r w dur h = Inr (st', h', obs) \<and>
    countOf (Some (totalS3Requests st')) h' =
      (if isS3Request w \<and> \<not> HasSuffix (URL_Path r) mp
       then incremented (countOf (Some (totalS3Requests st)) h) api
       else countOf (Some (totalS3Requests st)) h) \<and>
    countOf (Some (totalS3Errors st')) h' =
      (if isS3Request w \<and> \<not> HasSuffix (URL_Path r) mp \<and>
          \<not> (200 \<le> respStatusCode w \<and> respStatusCode w < 300) \<and> respStatusCode w \<noteq> 0
       then incremented (countOf (Some (totalS3Errors st)) h) api
       else countOf (Some (totalS3Errors st)) h) \<and>
    countOf (Some (currentS3Requests st')) h' = countOf (Some (currentS3Requests st)) h \<and>
    wellFormed st' h'"
proof (cases "isS3Request w \<and> \<not> HasSuffix (URL_Path r) mp")
  case False
  with wf show ?thesis
    by (auto simp: updateStats_def Let_def)
next
  case counted: True
  from wf have a: "allocated h (totalS3Requests st)" "allocated h (totalS3Errors st)"
      "allocated h (currentS3Requests st)"
    and s: "separate (totalS3Requests st) (totalS3Errors st)"
      "separate (currentS3Requests st) (totalS3Requests st)"
      "separate (currentS3Requests st) (totalS3Errors st)"
    by (simp_all add: wellFormed_def)
  from Inc_frame [OF a(1) a(2) a(3) s(1) s(2) s(3), of api]
  obtain q h1 where inc1: "Inc (Some (totalS3Requests st)) api h = Inr (Some q, h1)"
    and q: "countOf (Some q) h1 = incremented (countOf (Some (totalS3Requests st)) h) api"
    and e1: "countOf (Some (totalS3Errors st)) h1 = countOf (Some (totalS3Errors st)) h"
    and c1: "countOf (Some (currentS3Requests st)) h1 = countOf (Some (currentS3Requests st)) h"
    and a1: "allocated h1 q" "allocated h1 (totalS3Errors st)" "allocated h1 (currentS3Requests st)"
    and s1: "separate q (totalS3Errors st)" "separate (totalS3Errors st) q"
      "separate (currentS3Requests st) q" "separate (currentS3Requests st) (totalS3Errors st)"
    by blast
  show ?thesis
  proof (cases "\<not> (200 \<le> respStatusCode w \<and> respStatusCode w < 300) \<and> respStatusCode w \<noteq> 0")
    case False
    with counted inc1 q e1 c1 a1 s1 show ?thesis
      by (auto simp: updateStats_def Let_def wellFormed_def)
  next
    case errored: True
    from Inc_frame [OF a1(2) a1(1) a1(3) s1(2) s1(4) s1(3), of api]
    obtain e h2 where inc2: "Inc (Some (totalS3Errors st)) api h1 = Inr (Some e, h2)"
      and e: "countOf (Some e) h2 = incremented (countOf (Some (totalS3Errors st)) h1) api"
      and q2: "countOf (Some q) h2 = countOf (Some q) h1"
      and c2: "countOf (Some (currentS3Requests st)) h2 = countOf (Some (currentS3Requests st)) h1"
      and a2: "allocated h2 e" "allocated h2 q" "allocated h2 (currentS3Requests st)"
      and s2: "separate e q" "separate q e" "separate (currentS3Requests st) e"
        "separate (currentS3Requests st) q"
      by blast
    have run: "updateStats mp st api r w dur h =
        Inr (st\<lparr>totalS3Requests := q, totalS3Errors := e\<rparr>, h2,
             if isS3Request w \<and> Method r = ''GET'' then [(api, dur)] else [])"
      using counted errored inc1 inc2 by (simp add: updateStats_def Let_def)
    show ?thesis
      using counted errored q e1 c1 e q2 c2 a2 s2
      by (simp add: run wellFormed_def)
  qed
qed

text \<open>A GET that is answered with status 500: both counts go from nothing to 1.\<close>

theorem updateStats_counts_witness:
  "wellFormed newHTTPStats emptyStore \<and>
   requestsAfter
     (updateStats ''/prometheus/metrics'' newHTTPStats ''GetObject''
        \<lparr>Method = ''GET'', URL_Path = ''/bucket/key''\<rparr>
        \<lparr>respStatusCode = 500, isS3Request = True\<rparr> (5::nat) emptyStore) ''GetObject'' = Some 1 \<and>
   errorsAfter
     (updateStats ''/prometheus/metrics'' newHTTPStats ''GetObject''
        \<lparr>Method = ''GET'', URL_Path = ''/bucket/key''\<rparr>
        \<lparr>respStatusCode = 500, isS3Request = True\<rparr> (5::nat) emptyStore) ''GetObject'' = Some 1 \<and>
   (\<exists>st' h' obs.
      updateStats ''/prometheus/metrics'' newHTTPStats ''GetObject''
        \<lparr>Method = ''GET'', URL_Path = ''/bucket/key''\<rparr>
        \<lparr>respStatusCode = 500, isS3Request = True\<rparr> (5::nat) emptyStore = Inr (st', h', obs) \<and>
      countOf (Some (totalS3Requests st')) h' ''GetObject'' = Some 1 \<and>
      countOf (Some (totalS3Errors st')) h' ''GetObject'' = Some 1 \<and>
      wellFormed st' h')"
proof -
  let ?r = "\<lparr>Method = ''GET'', URL_Path = ''/bucket/key''\<rparr>"
  let ?w = "\<lparr>respStatusCode = 500, isS3Request = True\<rparr>"
  let ?run = "updateStats ''/prometheus/metrics'' newHTTPStats ''GetObject'' ?r ?w (5::nat) emptyStore"
  have wf: "wellFormed newHTTPStats emptyStore"
    by (simp add: wellFormed_def allocated_def separate_def newHTTPStats_def)
  have nosuf: "\<not> HasSuffix (URL_Path ?r) ''/prometheus/metrics''"
    by (simp add: HasSuffix_def)
  have before: "countOf (Some (totalS3Requests newHTTPStats)) emptyStore = Map.empty"
    "countOf (Some (totalS3Errors newHTTPStats)) emptyStore = Map.empty"
    by (simp_all add: countOf_def newHTTPStats_def)
  from updateStats_counts [OF wf, of "''/prometheus/metrics''" "''GetObject''" ?r ?w "5::nat"] nosuf
  obtain st' h' obs where run: "?run = Inr (st', h', obs)"
    and q: "countOf (Some (totalS3Requests st')) h' =
              incremented (countOf (Some (totalS3Requests newHTTPStats)) emptyStore) ''GetObject''"
    and e: "countOf (Some (totalS3Errors st')) h' =
              incremented (countOf (Some (totalS3Errors newHTTPStats)) emptyStore) ''GetObject''"
    and wf': "wellFormed st' h'"
    by auto
  from q e have c: "countOf (Some (totalS3Requests st')) h' ''GetObject'' = Some 1"
    "countOf (Some (totalS3Errors st')) h' ''GetObject'' = Some 1"
    by (simp_all add: before incremented_def)
  then have "requestsAfter ?run ''GetObject'' = Some 1" "errorsAfter ?run ''GetObject'' = Some 1"
    by (simp_all add: run requestsAfter_def errorsAfter_def)
  with wf run c wf' show ?thesis by blast
qed

text \<open>
  Against C5 as stated (counted when the path is not the metrics path): an S3 request
  for the object \<open>prometheus/metrics\<close> of a bucket is not counted, its path being
  different from the metrics path but ending with it.
\<close>

theorem updateStats_skips_paths_ending_in_metrics:
  "URL_Path \<lparr>Method = ''PUT'', URL_Path = ''/bucket/prometheus/metrics''\<rparr> \<noteq> ''/prometheus/metrics'' \<and>
   isS3Request \<lparr>respStatusCode = 200, isS3Request = True\<rparr> \<and>
   updateStats ''/prometheus/metrics'' newHTTPStats ''PutObject''
     \<lparr>Method = ''PUT'', URL_Path = ''/bucket/prometheus/metrics''\<rparr>
     \<lparr>respStatusCode = 200, isS3Request = True\<rparr> (5::nat) emptyStore =
     Inr (newHTTPStats, emptyStore, []) \<and>
   requestsAfter
     (updateStats ''/prometheus/metrics'' newHTTPStats ''PutObject''
        \<lparr>Method = ''PUT'', URL_Path = ''/bucket/prometheus/metrics''\<rparr>
        \<lparr>respStatusCode = 200, isS3Request = True\<rparr> (5::nat) emptyStore) ''PutObject'' = None"
  by (simp add: updateStats_def HasSuffix_def requestsAfter_def countOf_def newHTTPStats_def)

text \<open>
  Claim C9. \<open>Inc\<close> and \<open>Dec\<close> on a nil receiver fault in \<open>Lock\<close>; on a non-nil
  receiver they return, with the receiver still non-nil. So no call returns through the
  branch \<open>if stats == nil\<close>, which is the only one that would return with a nil
  receiver.
\<close>

theorem nil_check_is_unreachable:
  "Inc None api h = Inl NilDereference \<and> Dec None api h = Inl NilDereference \<and>
   (\<exists>s' h'. Inc (Some s) api h = Inr (Some s', h')) \<and>
   (\<exists>s' h'. Dec (Some s) api h = Inr (Some s', h')) \<and>
   Inc stats api h \<noteq> Inr (None, h') \<and> Dec stats api h \<noteq> Inr (None, h')"
  by (auto simp: Inc_def Dec_def Lock_def split: option.splits prod.splits)

end
